theory Spec2Isabelle
  imports Complex_Main "HOL-Library.Word" "HOL-Library.Log_Nat"
begin

section \<open>The JavaScript values the insights screen handles\<close>

text \<open>
  The repository holds two copies of the screen and of its API client:
  \<^item> \<^verbatim>\<open>src/screens/InsightsScreen.tsx\<close> with \<^verbatim>\<open>src/lib/num.ts\<close> (the copy whose header
    says \<^verbatim>\<open>client/src/screens/InsightsScreen.tsx\<close>); its functions keep their names here;
  \<^item> \<^verbatim>\<open>unnamed/part_000\<close> (a second \<^verbatim>\<open>InsightsScreen.tsx\<close> followed by the API client with
    the timeout); its functions carry the suffix \<open>_p0\<close> where the name is taken.

  A JavaScript string is a sequence of UTF-16 code units. A JavaScript number is a
  binary64 value: here a finite one is the real number it denotes, next to the two
  infinities and NaN. The result of an addition, subtraction, multiplication or division,
  the value of a decimal literal of the source and the value read from a string are rounded
  to binary64 by \<open>round64\<close>: to the nearest value, to the even one on a tie, with
  overflow to an infinity and gradual underflow. The negative zero is identified with
  zero; the only operation whose result depends on the sign of a zero is a division by it,
  and every divisor in this program is at least 1.

  A value is any value a parsed JSON payload can hold, or \<^verbatim>\<open>undefined\<close>. An object or an
  array is represented by the primitive value it converts to, which for those of a JSON
  payload is the string of \<^verbatim>\<open>toString\<close>. Symbols, on which \<^verbatim>\<open>Number\<close> throws, are left out.
\<close>

type_synonym jsstring = "16 word list"

definition lit :: "string \<Rightarrow> jsstring" where
  "lit s = map of_char s"

definition em_dash :: jsstring where
  "em_dash = [0x2014]"

definition en_dash :: jsstring where
  "en_dash = [0x2013]"

datatype jsnum = Fin real | PInf | NInf | NaN

datatype jsval =
    JUndefined
  | JNull
  | JBool bool
  | JNum jsnum
  | JStr jsstring
  | JObj jsval \<comment> \<open>an object or array, with the primitive value it converts to\<close>

datatype error = RangeError

subsection \<open>Rounding to binary64\<close>

text \<open>
  \<open>ilog2 x\<close> is the exponent \<open>e\<close> of a positive \<open>x\<close>, with \<open>2 ^ e \<le> x < 2 ^ (e + 1)\<close>. A
  binary64 value with exponent \<open>e\<close> is a multiple of \<open>2 ^ (e - 52)\<close>, and of \<open>2 ^ - 1074\<close>
  below the normal range. \<open>nearest64 x\<close> is the multiple nearest to \<open>x\<close>, the even one on
  a tie; from \<open>2 ^ 1024\<close> on it is replaced by an infinity.
\<close>

definition ilog2 :: "real \<Rightarrow> int" where
  "ilog2 x = (if 1 \<le> x then bitlen \<lfloor>x\<rfloor> - 1 else - bitlen (\<lceil>1 / x\<rceil> - 1))"

definition round_even :: "real \<Rightarrow> int" where
  "round_even z =
     (let n = \<lfloor>z\<rfloor>; r = z - real_of_int n
      in if r < 1 / 2 then n else if 1 / 2 < r then n + 1 else if even n then n else n + 1)"

definition quantum :: "real \<Rightarrow> real" where
  "quantum x = 2 powi (max (ilog2 \<bar>x\<bar>) (- 1022) - 52)"

definition nearest64 :: "real \<Rightarrow> real" where
  "nearest64 x = real_of_int (round_even (x / quantum x)) * quantum x"

definition round64 :: "real \<Rightarrow> jsnum" where
  "round64 x =
     (if x = 0 then Fin 0
      else if 2 ^ 1024 \<le> \<bar>nearest64 x\<bar> then (if 0 < x then PInf else NInf)
      else Fin (nearest64 x))"

subsection \<open>Arithmetic and comparison of numbers\<close>

fun Number_isFinite :: "jsnum \<Rightarrow> bool" where
  "Number_isFinite (Fin r) = True"
| "Number_isFinite PInf = False"
| "Number_isFinite NInf = False"
| "Number_isFinite NaN = False"

fun js_neg :: "jsnum \<Rightarrow> jsnum" where
  "js_neg (Fin r) = Fin (- r)"
| "js_neg PInf = NInf"
| "js_neg NInf = PInf"
| "js_neg NaN = NaN"

fun js_add :: "jsnum \<Rightarrow> jsnum \<Rightarrow> jsnum" where
  "js_add NaN b = NaN"
| "js_add a NaN = NaN"
| "js_add (Fin x) (Fin y) = round64 (x + y)"
| "js_add PInf NInf = NaN"
| "js_add NInf PInf = NaN"
| "js_add PInf b = PInf"
| "js_add NInf b = NInf"
| "js_add (Fin x) b = b"

definition js_sub :: "jsnum \<Rightarrow> jsnum \<Rightarrow> jsnum" where
  "js_sub a b = js_add a (js_neg b)"

text \<open>The sign of a number that is not NaN: \<open>-1\<close>, \<open>0\<close> or \<open>1\<close>.\<close>

fun js_sgn :: "jsnum \<Rightarrow> real" where
  "js_sgn (Fin r) = sgn r"
| "js_sgn PInf = 1"
| "js_sgn NInf = - 1"
| "js_sgn NaN = 0"

definition signed_inf :: "real \<Rightarrow> jsnum" where
  "signed_inf s = (if s = 0 then NaN else if 0 < s then PInf else NInf)"

fun js_mul :: "jsnum \<Rightarrow> jsnum \<Rightarrow> jsnum" where
  "js_mul NaN b = NaN"
| "js_mul a NaN = NaN"
| "js_mul (Fin x) (Fin y) = round64 (x * y)"
| "js_mul a b = signed_inf (js_sgn a * js_sgn b)"

fun js_div :: "jsnum \<Rightarrow> jsnum \<Rightarrow> jsnum" where
  "js_div NaN b = NaN"
| "js_div a NaN = NaN"
| "js_div (Fin x) (Fin y) = (if y = 0 then signed_inf (sgn x) else round64 (x / y))"
| "js_div (Fin x) b = Fin 0"
| "js_div a (Fin y) = signed_inf (js_sgn a * (if y < 0 then - 1 else 1))"
| "js_div a b = NaN"

fun js_lt :: "jsnum \<Rightarrow> jsnum \<Rightarrow> bool" where
  "js_lt NaN b = False"
| "js_lt a NaN = False"
| "js_lt (Fin x) (Fin y) = (x < y)"
| "js_lt a PInf = (a \<noteq> PInf)"
| "js_lt NInf b = (b \<noteq> NInf)"
| "js_lt a b = False"

definition js_gt :: "jsnum \<Rightarrow> jsnum \<Rightarrow> bool" where
  "js_gt a b = js_lt b a"

text \<open>\<^verbatim>\<open>Math.max\<close> and \<^verbatim>\<open>Math.min\<close> of two numbers: NaN as soon as one argument is.\<close>

definition Math_max :: "jsnum \<Rightarrow> jsnum \<Rightarrow> jsnum" where
  "Math_max a b = (if a = NaN \<or> b = NaN then NaN else if js_lt a b then b else a)"

definition Math_min :: "jsnum \<Rightarrow> jsnum \<Rightarrow> jsnum" where
  "Math_min a b = (if a = NaN \<or> b = NaN then NaN else if js_lt b a then b else a)"

fun Math_abs :: "jsnum \<Rightarrow> jsnum" where
  "Math_abs (Fin r) = Fin \<bar>r\<bar>"
| "Math_abs PInf = PInf"
| "Math_abs NInf = PInf"
| "Math_abs NaN = NaN"

text \<open>The truth value of a number, as \<^verbatim>\<open>||\<close> tests it: zero and NaN are falsy.\<close>

fun truthy :: "jsnum \<Rightarrow> bool" where
  "truthy (Fin r) = (r \<noteq> 0)"
| "truthy PInf = True"
| "truthy NInf = True"
| "truthy NaN = False"

definition js_or :: "jsnum \<Rightarrow> jsnum \<Rightarrow> jsnum" where
  "js_or a b = (if truthy a then a else b)"

subsection \<open>Conversion to a number: \<^verbatim>\<open>Number(x)\<close>\<close>

text \<open>
  White space and line terminators, which the conversion of a string strips at both ends.
\<close>

definition is_ws :: "16 word \<Rightarrow> bool" where
  "is_ws c = (c \<in> set [0x9, 0xA, 0xB, 0xC, 0xD, 0x20, 0xA0, 0x1680, 0x2000, 0x2001,
     0x2002, 0x2003, 0x2004, 0x2005, 0x2006, 0x2007, 0x2008, 0x2009, 0x200A, 0x2028,
     0x2029, 0x202F, 0x205F, 0x3000, 0xFEFF])"

definition trim :: "jsstring \<Rightarrow> jsstring" where
  "trim s = rev (dropWhile is_ws (rev (dropWhile is_ws s)))"

text \<open>The value of a digit in a base up to 16, or \<open>None\<close> when the code unit is none.\<close>

definition digit_of :: "nat \<Rightarrow> 16 word \<Rightarrow> nat option" where
  "digit_of base c =
     (let v = (if 0x30 \<le> c \<and> c \<le> 0x39 then unat c - 0x30
               else if 0x61 \<le> c \<and> c \<le> 0x66 then unat c - 0x61 + 10
               else if 0x41 \<le> c \<and> c \<le> 0x46 then unat c - 0x41 + 10
               else 16)
      in if v < base then Some v else None)"

definition is_digit :: "nat \<Rightarrow> 16 word \<Rightarrow> bool" where
  "is_digit base c = (digit_of base c \<noteq> None)"

definition digits_value :: "nat \<Rightarrow> jsstring \<Rightarrow> nat" where
  "digits_value base ds = foldl (\<lambda>a c. base * a + (case digit_of base c of Some v \<Rightarrow> v | None \<Rightarrow> 0)) 0 ds"

text \<open>A non-decimal integer literal: \<^verbatim>\<open>0x\<close>, \<^verbatim>\<open>0o\<close> or \<^verbatim>\<open>0b\<close> and at least one digit.\<close>

definition radix_of :: "jsstring \<Rightarrow> nat option" where
  "radix_of s =
     (case s of
        z # p # _ \<Rightarrow>
          (if z \<noteq> 0x30 then None
           else if p = 0x78 \<or> p = 0x58 then Some 16
           else if p = 0x6F \<or> p = 0x4F then Some 8
           else if p = 0x62 \<or> p = 0x42 then Some 2
           else None)
      | _ \<Rightarrow> None)"

text \<open>
  An unsigned decimal literal: \<^verbatim>\<open>Infinity\<close>, or digits with an optional fraction and an
  optional exponent, with at least one digit before the exponent. Its value is the decimal
  rounded to binary64.
\<close>

definition exponent_of :: "jsstring \<Rightarrow> int option" where
  "exponent_of s =
     (case s of
        [] \<Rightarrow> Some 0
      | c # r \<Rightarrow>
          (if c \<noteq> 0x65 \<and> c \<noteq> 0x45 then None
           else let neg = (r \<noteq> [] \<and> hd r = 0x2D);
                    ds = (if r \<noteq> [] \<and> (hd r = 0x2B \<or> hd r = 0x2D) then tl r else r)
                in if ds = [] \<or> \<not> list_all (is_digit 10) ds then None
                   else Some ((if neg then - 1 else 1) * int (digits_value 10 ds))))"

definition scale10 :: "real \<Rightarrow> int \<Rightarrow> real" where
  "scale10 x e = (if 0 \<le> e then x * 10 ^ nat e else x / 10 ^ nat (- e))"

definition unsigned_decimal :: "jsstring \<Rightarrow> jsnum" where
  "unsigned_decimal s =
     (if s = lit ''Infinity'' then PInf
      else let ip = takeWhile (is_digit 10) s;
               r1 = dropWhile (is_digit 10) s;
               dot = (r1 \<noteq> [] \<and> hd r1 = 0x2E);
               fp = (if dot then takeWhile (is_digit 10) (tl r1) else []);
               r2 = (if dot then dropWhile (is_digit 10) (tl r1) else r1)
           in if ip = [] \<and> fp = [] then NaN
              else (case exponent_of r2 of
                      None \<Rightarrow> NaN
                    | Some e \<Rightarrow>
                        round64 (scale10 (real (digits_value 10 ip)
                                           + real (digits_value 10 fp) / 10 ^ length fp) e)))"

definition StringToNumber :: "jsstring \<Rightarrow> jsnum" where
  "StringToNumber s =
     (let t = trim s in
      if t = [] then Fin 0
      else case radix_of t of
             Some b \<Rightarrow>
               (let ds = drop 2 t
                in if ds = [] \<or> \<not> list_all (is_digit b) ds then NaN
                   else round64 (real (digits_value b ds)))
           | None \<Rightarrow>
               (if hd t = 0x2B then unsigned_decimal (tl t)
                else if hd t = 0x2D then js_neg (unsigned_decimal (tl t))
                else unsigned_decimal t))"

fun Number :: "jsval \<Rightarrow> jsnum" where
  "Number JUndefined = NaN"
| "Number JNull = Fin 0"
| "Number (JBool b) = Fin (if b then 1 else 0)"
| "Number (JNum v) = v"
| "Number (JStr s) = StringToNumber s"
| "Number (JObj p) = Number p"

subsection \<open>Conversion to a string: \<^verbatim>\<open>toFixed\<close>, \<^verbatim>\<open>String(x)\<close>\<close>

fun digits10 :: "nat \<Rightarrow> nat list" where
  "digits10 n = (if n < 10 then [n] else digits10 (n div 10) @ [n mod 10])"

declare digits10.simps [simp del]

definition digit_char :: "nat \<Rightarrow> 16 word" where
  "digit_char d = of_nat (0x30 + d)"

definition dec :: "nat \<Rightarrow> jsstring" where
  "dec n = map digit_char (digits10 n)"

text \<open>
  The digits of \<^verbatim>\<open>Number.prototype.toString\<close> are those of the shortest decimal that reads
  back as the same binary64 value, which depends on the precision of the format. The
  digit generation is therefore a parameter \<open>sd\<close>: for a positive finite \<open>x\<close>, \<open>sd x = (s, n)\<close>
  gives the significand \<open>s\<close>, written with \<open>k\<close> digits, and the exponent \<open>n\<close>, for the decimal
  \<open>s * 10 ^ (n - k)\<close>. The layout of the digits is the language's and is modelled.
\<close>

type_synonym digit_gen = "real \<Rightarrow> nat \<times> int"

definition positive_toString :: "digit_gen \<Rightarrow> real \<Rightarrow> jsstring" where
  "positive_toString sd x =
     (let (s, n) = sd x; ds = dec s; k = int (length ds) in
      if k \<le> n \<and> n \<le> 21 then ds @ replicate (nat (n - k)) (0x30)
      else if 0 < n \<and> n \<le> 21 then take (nat n) ds @ lit ''.'' @ drop (nat n) ds
      else if - 6 < n \<and> n \<le> 0 then lit ''0.'' @ replicate (nat (- n)) (0x30) @ ds
      else let e = n - 1;
               es = (if e < 0 then lit ''-'' else lit ''+'') @ dec (nat \<bar>e\<bar>)
           in if k = 1 then ds @ lit ''e'' @ es
              else hd ds # lit ''.'' @ tl ds @ lit ''e'' @ es)"

fun Number_toString :: "digit_gen \<Rightarrow> jsnum \<Rightarrow> jsstring" where
  "Number_toString sd NaN = lit ''NaN''"
| "Number_toString sd PInf = lit ''Infinity''"
| "Number_toString sd NInf = lit ''-Infinity''"
| "Number_toString sd (Fin r) =
     (if r = 0 then lit ''0''
      else if r < 0 then lit ''-'' @ positive_toString sd (- r)
      else positive_toString sd r)"

fun String_js :: "digit_gen \<Rightarrow> jsval \<Rightarrow> jsstring" where
  "String_js sd JUndefined = lit ''undefined''"
| "String_js sd JNull = lit ''null''"
| "String_js sd (JBool b) = (if b then lit ''true'' else lit ''false'')"
| "String_js sd (JNum v) = Number_toString sd v"
| "String_js sd (JStr s) = s"
| "String_js sd (JObj p) = String_js sd p"

text \<open>
  \<^verbatim>\<open>x.toFixed(f)\<close> for a non-negative \<open>x\<close> below \<open>10 ^ 21\<close>: the integer \<open>n\<close> nearest to
  \<open>x * 10 ^ f\<close> (the larger one on a tie), written with at least \<open>f + 1\<close> digits and a point
  before the last \<open>f\<close>.
\<close>

definition nearest_integer :: "real \<Rightarrow> int" where
  "nearest_integer y = \<lfloor>y + 1 / 2\<rfloor>"

definition fixed_digits :: "real \<Rightarrow> nat \<Rightarrow> jsstring" where
  "fixed_digits x f =
     (let n = nat (nearest_integer (x * 10 ^ f));
          m = dec n
      in if f = 0 then m
         else let m' = replicate (f + 1 - length m) (0x30) @ m;
                  k = length m'
              in take (k - f) m' @ lit ''.'' @ drop (k - f) m')"

definition toFixed :: "digit_gen \<Rightarrow> jsnum \<Rightarrow> int \<Rightarrow> error + jsstring" where
  "toFixed sd x fd =
     (if fd < 0 \<or> 100 < fd then Inl RangeError
      else case x of
             Fin r \<Rightarrow>
               (let s = (if r < 0 then lit ''-'' else []);
                    a = \<bar>r\<bar>
                in if 10 ^ 21 \<le> a then Inr (s @ Number_toString sd (Fin a))
                   else Inr (s @ fixed_digits a (nat fd)))
           | _ \<Rightarrow> Inr (Number_toString sd x))"

section \<open>\<^verbatim>\<open>src/lib/num.ts\<close>\<close>

text \<open>
  The default of the parameter \<^verbatim>\<open>dash\<close> in \<^verbatim>\<open>fmt\<close> and \<^verbatim>\<open>pct\<close>, as the file has it: the
  three code units \<^verbatim>\<open>U+00E2 U+20AC U+201D\<close>.
\<close>

definition default_dash :: jsstring where
  "default_dash = [0xE2, 0x20AC, 0x201D]"

definition fmt :: "digit_gen \<Rightarrow> jsval \<Rightarrow> int \<Rightarrow> jsstring \<Rightarrow> error + jsstring" where
  "fmt sd n digits dash =
     (let v = Number n in
      if Number_isFinite v then toFixed sd v digits else Inr dash)"

definition pct :: "digit_gen \<Rightarrow> jsval \<Rightarrow> jsstring \<Rightarrow> error + jsstring" where
  "pct sd n dash =
     (let v = Number n in
      if \<not> Number_isFinite v then Inr dash
      else let clamped = Math_max (Fin 0) (Math_min (Fin 1) v)
           in case toFixed sd (js_mul clamped (Fin 100)) 0 of
                Inl e \<Rightarrow> Inl e
              | Inr s \<Rightarrow> Inr (s @ lit ''%''))"

definition ratio01 :: "jsval \<Rightarrow> jsnum" where
  "ratio01 n =
     (let v = Number n in
      if Number_isFinite v then Math_max (Fin 0) (Math_min (Fin 1) v) else Fin 0)"

section \<open>\<^verbatim>\<open>src/screens/InsightsScreen.tsx\<close>\<close>

subsection \<open>Null-safe helpers\<close>

definition toNum :: "jsval \<Rightarrow> jsnum" where
  "toNum x = (if Number_isFinite (Number x) then Number x else NaN)"

definition num :: "jsval \<Rightarrow> jsnum" where
  "num x = (if Number_isFinite (Number x) then Number x else Fin 0)"

definition num01 :: "jsval \<Rightarrow> jsnum" where
  "num01 x =
     (let v = Number x in
      if Number_isFinite v then Math_max (Fin 0) (Math_min (Fin 1) v) else Fin 0)"

text \<open>
  The field \<^verbatim>\<open>news_sentiment\<close> of the sentiment payload; the payload is untyped at run
  time, so each field is any value. \<open>None\<close> is a null or missing record, whose fields read
  as \<^verbatim>\<open>undefined\<close> through \<^verbatim>\<open>ns?.score\<close>.
\<close>

record news =
  score :: jsval
  sample :: jsval

definition field :: "('r \<Rightarrow> jsval) \<Rightarrow> 'r option \<Rightarrow> jsval" where
  "field f r = (case r of None \<Rightarrow> JUndefined | Some x \<Rightarrow> f x)"

definition newsString :: "digit_gen \<Rightarrow> news option \<Rightarrow> error + jsstring" where
  "newsString sd ns =
     (let v = toNum (field score ns) in
      if \<not> Number_isFinite v then Inr em_dash
      else let s = (if js_gt v (Fin 0) then lit ''+'' else []);
               sample_text = (if Number_isFinite (Number (field sample ns))
                              then String_js sd (field sample ns) else em_dash)
           in case fmt sd (JNum (Math_abs v)) 2 default_dash of
                Inl e \<Rightarrow> Inl e
              | Inr val \<Rightarrow> Inr (s @ val @ lit '' ('' @ sample_text @ lit '')''))"

datatype tone = Muted | Good | Warn | Neutral

definition pcTone :: "jsval \<Rightarrow> tone" where
  "pcTone ratio =
     (let v = Number ratio in
      if \<not> Number_isFinite v then Neutral
      else if js_lt v (round64 0.9) then Good
      else if js_gt v (round64 1.1) then Warn
      else Neutral)"

subsection \<open>Bars\<close>

text \<open>
  A bar is rendered as segments whose \<^verbatim>\<open>flexBasis\<close> is a percentage; the model returns
  the percentages in the order of the segments: advancers, unchanged, decliners for the
  breadth bar, up and down for the volume bar.
\<close>

definition BreadthBar :: "jsnum \<Rightarrow> jsnum \<Rightarrow> jsnum \<Rightarrow> jsnum \<times> jsnum \<times> jsnum" where
  "BreadthBar advancers decliners unchanged =
     (let total = Math_max (Fin 1) (js_add (js_add advancers decliners) unchanged);
          a = js_mul (js_div advancers total) (Fin 100);
          d = js_mul (js_div decliners total) (Fin 100);
          u = Math_max (Fin 0) (js_sub (js_sub (Fin 100) a) d)
      in (a, u, d))"

definition VolumeBar :: "jsnum \<Rightarrow> jsnum \<Rightarrow> jsnum \<Rightarrow> jsnum \<times> jsnum" where
  "VolumeBar up down total' =
     (let t = Math_max (Fin 1) (js_or total' (js_add up down));
          pUp = Math_max (Fin 0) (Math_min (Fin 100) (js_mul (js_div up t) (Fin 100)));
          pDown = Math_max (Fin 0) (Math_min (Fin 100) (js_mul (js_div down t) (Fin 100)))
      in (pUp, pDown))"

subsection \<open>Loading\<close>

text \<open>
  A thrown value, as the handlers read it: its \<^verbatim>\<open>name\<close> and its \<^verbatim>\<open>message\<close>, \<open>None\<close> when
  the property is missing or the value itself is null.
\<close>

record thrown =
  name :: "jsstring option"
  message :: "jsstring option"

definition Error :: "jsstring \<Rightarrow> thrown" where
  "Error m = \<lparr>name = Some (lit ''Error''), message = Some m\<rparr>"

text \<open>
  A promise that has settled, with the time at which it did. \<^verbatim>\<open>Promise.all\<close> fulfils with
  all the values once every promise has fulfilled, and rejects with the reason of the
  promise that rejected first.
\<close>

datatype 'a settled = Fulfilled 'a | Rejected thrown

definition first_of :: "nat \<times> thrown \<Rightarrow> nat \<times> thrown \<Rightarrow> nat \<times> thrown" where
  "first_of x y = (if fst y < fst x then y else x)"

fun Promise_all ::
  "nat \<times> 'a settled \<Rightarrow> nat \<times> 'b settled \<Rightarrow> nat \<times> 'c settled \<Rightarrow> thrown + 'a \<times> 'b \<times> 'c" where
  "Promise_all (t1, Fulfilled a) (t2, Fulfilled b) (t3, Fulfilled c) = Inr (a, b, c)"
| "Promise_all (t1, Rejected e1) (t2, Fulfilled b) (t3, Fulfilled c) = Inl e1"
| "Promise_all (t1, Fulfilled a) (t2, Rejected e2) (t3, Fulfilled c) = Inl e2"
| "Promise_all (t1, Fulfilled a) (t2, Fulfilled b) (t3, Rejected e3) = Inl e3"
| "Promise_all (t1, Rejected e1) (t2, Rejected e2) (t3, Fulfilled c) =
     Inl (snd (first_of (t1, e1) (t2, e2)))"
| "Promise_all (t1, Rejected e1) (t2, Fulfilled b) (t3, Rejected e3) =
     Inl (snd (first_of (t1, e1) (t3, e3)))"
| "Promise_all (t1, Fulfilled a) (t2, Rejected e2) (t3, Rejected e3) =
     Inl (snd (first_of (t2, e2) (t3, e3)))"
| "Promise_all (t1, Rejected e1) (t2, Rejected e2) (t3, Rejected e3) =
     Inl (snd (first_of (first_of (t1, e1) (t2, e2)) (t3, e3)))"

text \<open>
  The state of the screen. A payload is whatever the response body parses to, \<open>None\<close>
  when that is null; \<open>err = None\<close> is the absent error, for which no banner is rendered.
\<close>

record ('s, 'n, 'p) screen =
  summary :: "'s option"
  sentiment :: "'n option"
  patterns :: "'p option"
  loading :: bool
  err :: "jsstring option"

definition load ::
  "('s, 'n, 'p) screen \<Rightarrow> nat \<times> 's option settled \<Rightarrow> nat \<times> 'n option settled \<Rightarrow>
     nat \<times> 'p option settled \<Rightarrow> ('s, 'n, 'p) screen" where
  "load st getSummary getSentiment getPatterns =
     (let st1 = st\<lparr>err := None, loading := True\<rparr> in
      case Promise_all getSummary getSentiment getPatterns of
        Inr (s, sen, p) \<Rightarrow>
          st1\<lparr>summary := s, sentiment := sen, patterns := p, loading := False\<rparr>
      | Inl e \<Rightarrow>
          st1\<lparr>err := Some (case message e of Some m \<Rightarrow> m
                               | None \<Rightarrow> lit ''Failed to load insights''),
              loading := False\<rparr>)"

section \<open>\<^verbatim>\<open>unnamed/part_000\<close>: the second copy of the screen\<close>

subsection \<open>Helpers\<close>

fun isNum :: "jsval \<Rightarrow> bool" where
  "isNum (JNum v) = Number_isFinite v"
| "isNum x = False"

definition sign :: "jsval \<Rightarrow> jsstring" where
  "sign v = (if js_gt (Number v) (Fin 0) then lit ''+'' else [])"

definition pcTone_p0 :: "jsnum \<Rightarrow> tone" where
  "pcTone_p0 ratio =
     (if js_lt ratio (round64 0.9) then Good
      else if js_gt ratio (round64 1.1) then Warn
      else Neutral)"

text \<open>
  The \<^verbatim>\<open>tone\<close> of the two put/call statistics, as the sentiment card computes it:
  \<^verbatim>\<open>isNum(r) ? pcTone(r!) : "neutral"\<close>.
\<close>

definition put_call_tone_p0 :: "jsval \<Rightarrow> tone" where
  "put_call_tone_p0 r = (if isNum r then pcTone_p0 (Number r) else Neutral)"

text \<open>
  The \<^verbatim>\<open>value\<close> of the News statistic, as the sentiment card computes it from
  \<^verbatim>\<open>sentiment.news_sentiment\<close>.
\<close>

definition news_value_p0 :: "digit_gen \<Rightarrow> news option \<Rightarrow> error + jsstring" where
  "news_value_p0 sd ns =
     (case ns of
        None \<Rightarrow> Inr en_dash
      | Some n \<Rightarrow>
          (case toFixed sd (Math_abs (Number (score n))) 2 of
             Inl e \<Rightarrow> Inl e
           | Inr val \<Rightarrow>
               Inr (sign (score n) @ val @ lit '' ('' @ String_js sd (sample n) @ lit '')'')))"

subsection \<open>Bars\<close>

definition BreadthBar_p0 :: "jsnum \<Rightarrow> jsnum \<Rightarrow> jsnum \<Rightarrow> jsnum \<times> jsnum \<times> jsnum" where
  "BreadthBar_p0 advancers decliners unchanged =
     (let total = Math_max (Fin 1) (js_add (js_add advancers decliners) unchanged);
          a = js_mul (js_div advancers total) (Fin 100);
          d = js_mul (js_div decliners total) (Fin 100);
          u = js_sub (js_sub (Fin 100) a) d
      in (a, u, d))"

definition VolumeBar_p0 :: "jsnum \<Rightarrow> jsnum \<Rightarrow> jsnum \<Rightarrow> jsnum \<times> jsnum" where
  "VolumeBar_p0 up down total' =
     (let t = Math_max (Fin 1) (js_or total' (js_add up down));
          pUp = js_mul (js_div up t) (Fin 100);
          pDown = js_mul (js_div down t) (Fin 100)
      in (pUp, pDown))"

subsection \<open>Loading\<close>

definition load_p0 ::
  "('s, 'n, 'p) screen \<Rightarrow> nat \<times> 's option settled \<Rightarrow> nat \<times> 'n option settled \<Rightarrow>
     nat \<times> 'p option settled \<Rightarrow> ('s, 'n, 'p) screen" where
  "load_p0 st getSummary getSentiment getPatterns =
     (let st1 = st\<lparr>err := None, loading := True\<rparr> in
      case Promise_all getSummary getSentiment getPatterns of
        Inr (s, sen, p) \<Rightarrow>
          st1\<lparr>summary := s, sentiment := sen, patterns := p, loading := False\<rparr>
      | Inl e \<Rightarrow>
          st1\<lparr>err := Some (case message e of Some m \<Rightarrow> m
                               | None \<Rightarrow> lit ''Failed to load insights''),
              summary := None, sentiment := None, patterns := None,
              loading := False\<rparr>)"

section \<open>\<^verbatim>\<open>unnamed/part_000\<close>: the API client\<close>

text \<open>
  What the network does is the input of \<^verbatim>\<open>request\<close>: how \<^verbatim>\<open>fetch\<close> settles and, for a
  response, its status and how reading its body as text and as JSON settles. An abort by the
  controller rejects the pending operation with a value whose name is \<^verbatim>\<open>AbortError\<close>.
  The URL object is given by the two parts the error message prints.
\<close>

record 'a response =
  status :: nat
  text_result :: "thrown + jsstring"
  json_result :: "thrown + 'a"

datatype 'a fetched = Responded "'a response" | Refused thrown

definition ok :: "'a response \<Rightarrow> bool" where
  "ok res = (200 \<le> status res \<and> status res \<le> 299)"

record url =
  pathname :: jsstring
  search :: jsstring

text \<open>The pending timers, by identifier.\<close>

definition setTimeout :: "nat list \<Rightarrow> nat \<times> nat list" where
  "setTimeout pending = (let t = Suc (foldr max pending 0) in (t, t # pending))"

definition clearTimeout :: "nat \<Rightarrow> nat list \<Rightarrow> nat list" where
  "clearTimeout t pending = removeAll t pending"

definition request :: "url \<Rightarrow> 'a fetched \<Rightarrow> nat list \<Rightarrow> (thrown + 'a) \<times> nat list" where
  "request u fetch pending =
     (let (t, pending1) = setTimeout pending;
          attempt =
            (case fetch of
               Refused e \<Rightarrow> Inl e
             | Responded res \<Rightarrow>
                 if \<not> ok res then
                   (let text = (case text_result res of Inl e \<Rightarrow> [] | Inr b \<Rightarrow> b)
                    in Inl (Error (lit ''HTTP '' @ dec (status res) @ lit '' on ''
                                   @ pathname u @ search u
                                   @ (if text \<noteq> [] then [0x20, 0x2014, 0x20] @ take 180 text
                                      else []))))
                 else json_result res);
          result =
            (case attempt of
               Inl e \<Rightarrow>
                 if name e = Some (lit ''AbortError'') then Inl (Error (lit ''Request timed out''))
                 else Inl e
             | Inr v \<Rightarrow> Inr v)
      in (result, clearTimeout t pending1))"

section \<open>Measures used in the statements\<close>

text \<open>The sum of the three percentages of a breadth bar.\<close>

definition sum3 :: "jsnum \<times> jsnum \<times> jsnum \<Rightarrow> jsnum" where
  "sum3 p = (case p of (a, u, d) \<Rightarrow> js_add (js_add a u) d)"

section \<open>Properties\<close>

subsection \<open>Rounding to binary64\<close>

lemma ilog2_bounds:
  assumes "0 < x"
  shows "2 powi ilog2 x \<le> x" "x < 2 powi (ilog2 x + 1)"
proof -
  have "2 powi ilog2 x \<le> x \<and> x < 2 powi (ilog2 x + 1)"
  proof (cases "1 \<le> x")
    case True
    define n where "n = \<lfloor>x\<rfloor>"
    have n: "0 < n" "real_of_int n \<le> x" "x < real_of_int n + 1"
      using True by (simp_all add: n_def)
    have b: "1 \<le> bitlen n" using n(1) by (simp add: bitlen_alt_def)
    from bitlen_bounds [OF n(1)]
    have lo: "(2::int) ^ nat (bitlen n - 1) \<le> n" and hi: "n < 2 ^ nat (bitlen n)" by simp_all
    have e: "ilog2 x = bitlen n - 1" using True by (simp add: ilog2_def n_def)
    have "(2::real) powi (bitlen n - 1) = real_of_int (2 ^ nat (bitlen n - 1))"
      using b by (simp add: power_int_def)
    also have "\<dots> \<le> real_of_int n" using lo by linarith
    finally have 1: "2 powi ilog2 x \<le> x" using n(2) e by simp
    have "n + 1 \<le> 2 ^ nat (bitlen n)" using hi by simp
    then have "real_of_int (n + 1) \<le> real_of_int (2 ^ nat (bitlen n))" by linarith
    also have "\<dots> = 2 powi (bitlen n)"
      using b by (simp add: power_int_def)
    finally have 2: "x < 2 powi (ilog2 x + 1)" using n(3) e by simp
    from 1 2 show ?thesis by simp
  next
    case False
    define y where "y = 1 / x"
    define m where "m = \<lceil>y\<rceil>"
    have y: "1 < y" using False assms by (simp add: y_def)
    have m: "1 < m" "y \<le> real_of_int m" "real_of_int m - 1 < y"
      using y by (simp_all add: m_def) linarith+
    define k where "k = bitlen (m - 1)"
    have pos: "0 < m - 1" using m(1) by simp
    have b: "1 \<le> k" using pos by (simp add: k_def bitlen_alt_def)
    from bitlen_bounds [OF pos]
    have lo: "(2::int) ^ nat (k - 1) \<le> m - 1" and hi: "m - 1 < 2 ^ nat k"
      by (simp_all add: k_def)
    have e: "ilog2 x = - k" using False by (simp add: ilog2_def k_def m_def y_def)
    have "real_of_int m \<le> real_of_int (2 ^ nat k)"
      using hi by linarith
    with m(2) have "y \<le> real_of_int (2 ^ nat k)" by linarith
    then have "y \<le> 2 ^ nat k" by simp
    then have "1 / x \<le> 2 ^ nat k" by (simp add: y_def)
    then have "1 / 2 ^ nat k \<le> x"
      using assms by (simp add: field_simps)
    moreover have "(2::real) powi (- k) = 1 / 2 ^ nat k"
      using b by (simp add: power_int_def power_one_over)
    ultimately have 1: "2 powi ilog2 x \<le> x" using e by simp
    have "real_of_int (2 ^ nat (k - 1)) \<le> real_of_int (m - 1)" using lo by linarith
    with m(3) have "real_of_int (2 ^ nat (k - 1)) < y" by simp
    then have "2 ^ nat (k - 1) < y" by simp
    then have "2 ^ nat (k - 1) < 1 / x" by (simp add: y_def)
    then have "x < 1 / 2 ^ nat (k - 1)"
      using assms by (simp add: field_simps)
    moreover have "(2::real) powi (- k + 1) = 1 / 2 ^ nat (k - 1)"
    proof (cases "k = 1")
      case True
      then show ?thesis by simp
    next
      case False
      with b have "- k + 1 < 0" by simp
      then show ?thesis by (simp add: power_int_def power_one_over)
    qed
    ultimately have 2: "x < 2 powi (ilog2 x + 1)" using e by simp
    from 1 2 show ?thesis by simp
  qed
  then show "2 powi ilog2 x \<le> x" "x < 2 powi (ilog2 x + 1)" by simp_all
qed

lemma round_even_near: "\<bar>real_of_int (round_even z) - z\<bar> \<le> 1 / 2"
  unfolding round_even_def Let_def by (auto simp: abs_if) linarith+

lemma round_even_le: "z \<le> real_of_int m \<Longrightarrow> round_even z \<le> m"
proof -
  assume a: "z \<le> real_of_int m"
  then have f: "\<lfloor>z\<rfloor> \<le> m" by (simp add: floor_le_iff)
  show ?thesis
  proof (cases "\<lfloor>z\<rfloor> = m")
    case True
    with a have "z = real_of_int m" by linarith
    then show ?thesis by (simp add: round_even_def)
  next
    case False
    with f have "\<lfloor>z\<rfloor> + 1 \<le> m" by simp
    then show ?thesis unfolding round_even_def Let_def by auto
  qed
qed

lemma round_even_ge: "real_of_int m \<le> z \<Longrightarrow> m \<le> round_even z"
proof -
  assume "real_of_int m \<le> z"
  then have "m \<le> \<lfloor>z\<rfloor>" by (simp add: le_floor_iff)
  then show ?thesis unfolding round_even_def Let_def by auto
qed

lemma quantum_pos: "0 < quantum x"
  by (simp add: quantum_def)

lemma ilog2_le:
  assumes "x \<noteq> 0" "\<bar>x\<bar> \<le> 2 powi n"
  shows "ilog2 \<bar>x\<bar> \<le> n"
proof (rule ccontr)
  assume "\<not> ilog2 \<bar>x\<bar> \<le> n"
  then have "(2::real) powi n < 2 powi ilog2 \<bar>x\<bar>"
    by (intro power_int_strict_increasing) simp_all
  also have "\<dots> \<le> \<bar>x\<bar>"
    using assms(1) by (intro ilog2_bounds) simp
  finally show False using assms(2) by simp
qed

lemma quantum_le:
  assumes "x \<noteq> 0" "\<bar>x\<bar> \<le> 2 powi n" "- 1022 \<le> n"
  shows "quantum x \<le> 2 powi (n - 52)"
  unfolding quantum_def using ilog2_le [OF assms(1,2)] assms(3)
  by (intro power_int_increasing) simp_all

lemma round64_alt:
  "round64 x = (if x = 0 then Fin 0
                else if 2 ^ 1024 \<le> \<bar>nearest64 x\<bar> then (if 0 < x then PInf else NInf)
                else Fin (nearest64 x))"
  by (simp add: round64_def)

lemma nearest64_error: "\<bar>nearest64 x - x\<bar> \<le> quantum x / 2"
proof -
  have q: "0 < quantum x" by (rule quantum_pos)
  have "nearest64 x - x = (real_of_int (round_even (x / quantum x)) - x / quantum x) * quantum x"
    using q by (simp add: nearest64_def field_simps)
  then have "\<bar>nearest64 x - x\<bar> = \<bar>real_of_int (round_even (x / quantum x)) - x / quantum x\<bar> * quantum x"
    using q by (simp add: abs_mult)
  also have "\<dots> \<le> 1 / 2 * quantum x"
    using q round_even_near [of "x / quantum x"] by (intro mult_right_mono) simp_all
  finally show ?thesis by simp
qed

lemma round64_error:
  assumes "\<bar>x\<bar> \<le> 2 ^ n" "n \<le> 1000"
  shows "\<exists>r. round64 x = Fin r \<and> \<bar>r - x\<bar> \<le> 2 ^ n / 2 ^ 53"
proof (cases "x = 0")
  case True
  then show ?thesis by (simp add: round64_def)
next
  case False
  have "quantum x \<le> 2 powi (int n - 52)"
    using False assms(1) by (intro quantum_le) simp_all
  also have "\<dots> = 2 ^ n / 2 ^ 52"
    by (simp add: power_int_diff)
  finally have q: "quantum x / 2 \<le> 2 ^ n / 2 ^ 53" by simp
  with nearest64_error [of x] have e: "\<bar>nearest64 x - x\<bar> \<le> 2 ^ n / 2 ^ 53" by linarith
  have "(2::real) ^ n / 2 ^ 53 \<le> 2 ^ n" by (simp add: field_simps)
  with e assms(1) have "\<bar>nearest64 x\<bar> \<le> 2 ^ n + 2 ^ n" by linarith
  also have "\<dots> = (2::real) ^ Suc n" by simp
  also have "\<dots> < 2 ^ 1024"
    using assms(2) by (intro power_strict_increasing) simp_all
  finally have "\<not> 2 ^ 1024 \<le> \<bar>nearest64 x\<bar>" by simp
  with False e show ?thesis by (simp add: round64_alt)
qed

lemma round64_sandwich:
  assumes "real_of_int lo \<le> x" "x \<le> real_of_int hi" "\<bar>lo\<bar> < 2 ^ 53" "\<bar>hi\<bar> < 2 ^ 53"
  shows "\<exists>r. round64 x = Fin r \<and> real_of_int lo \<le> r \<and> r \<le> real_of_int hi"
proof (cases "x = 0")
  case True
  with assms show ?thesis by (simp add: round64_def)
next
  case False
  have "\<bar>x\<bar> \<le> max \<bar>real_of_int lo\<bar> \<bar>real_of_int hi\<bar>"
    using assms(1,2) by linarith
  moreover have "real_of_int \<bar>lo\<bar> < real_of_int (2 ^ 53)" "real_of_int \<bar>hi\<bar> < real_of_int (2 ^ 53)"
    using assms(3,4) by linarith+
  ultimately have x: "\<bar>x\<bar> < 2 ^ 53" by simp
  have "2 powi ilog2 \<bar>x\<bar> \<le> \<bar>x\<bar>"
    using False by (intro ilog2_bounds) simp
  with x have "(2::real) powi ilog2 \<bar>x\<bar> < 2 powi 53" by simp
  then have "ilog2 \<bar>x\<bar> < 53"
    by (intro power_int_le_imp_less_exp [of "2::real"]) simp_all
  then have e: "max (ilog2 \<bar>x\<bar>) (- 1022) - 52 \<le> 0" by simp
  define k where "k = nat (52 - max (ilog2 \<bar>x\<bar>) (- 1022))"
  have q: "quantum x = 1 / 2 ^ k"
    using e by (simp add: quantum_def k_def power_int_def power_one_over) (simp add: nat_diff_distrib)?
  have "real_of_int (lo * 2 ^ k) \<le> x / quantum x"
    using assms(1) by (simp add: q mult_right_mono)
  then have l: "lo * 2 ^ k \<le> round_even (x / quantum x)" by (rule round_even_ge)
  have "x / quantum x \<le> real_of_int (hi * 2 ^ k)"
    using assms(2) by (simp add: q mult_right_mono)
  then have h: "round_even (x / quantum x) \<le> hi * 2 ^ k" by (rule round_even_le)
  have "real_of_int (lo * 2 ^ k) \<le> real_of_int (round_even (x / quantum x))"
    using l by linarith
  then have "real_of_int lo * 2 ^ k / 2 ^ k \<le> real_of_int (round_even (x / quantum x)) / 2 ^ k"
    by (intro divide_right_mono) simp_all
  then have lo: "real_of_int lo \<le> nearest64 x"
    by (simp add: nearest64_def q)
  have "real_of_int (round_even (x / quantum x)) \<le> real_of_int (hi * 2 ^ k)"
    using h by linarith
  then have "real_of_int (round_even (x / quantum x)) / 2 ^ k \<le> real_of_int hi * 2 ^ k / 2 ^ k"
    by (intro divide_right_mono) simp_all
  then have hi: "nearest64 x \<le> real_of_int hi"
    by (simp add: nearest64_def q)
  have "\<bar>nearest64 x\<bar> \<le> max \<bar>real_of_int lo\<bar> \<bar>real_of_int hi\<bar>"
    using lo hi by linarith
  also have "\<dots> < 2 ^ 53"
    using \<open>real_of_int \<bar>lo\<bar> < real_of_int (2 ^ 53)\<close> \<open>real_of_int \<bar>hi\<bar> < real_of_int (2 ^ 53)\<close>
    by simp
  also have "\<dots> \<le> (2::real) ^ 1024" by simp
  finally have "\<not> 2 ^ 1024 \<le> \<bar>nearest64 x\<bar>" by simp
  with False lo hi show ?thesis by (simp add: round64_alt)
qed

lemma round64_relative:
  assumes "1 / 2 \<le> w"
  shows "round64 w = PInf \<or> (\<exists>r. round64 w = Fin r \<and> w * (1 - 1 / 2 ^ 53) \<le> r)"
proof -
  have pos: "0 < w" using assms by simp
  have b: "2 powi ilog2 w \<le> w" "w < 2 powi (ilog2 w + 1)"
    using pos by (rule ilog2_bounds)+
  have "- 1 < ilog2 w + 1"
  proof (rule ccontr)
    assume "\<not> - 1 < ilog2 w + 1"
    then have "(2::real) powi (ilog2 w + 1) \<le> 2 powi (- 1)"
      by (intro power_int_increasing) simp_all
    with assms b(2) show False by simp
  qed
  then have "max (ilog2 \<bar>w\<bar>) (- 1022) = ilog2 w"
    using pos by simp
  then have "quantum w = 2 powi ilog2 w / 2 ^ 52"
    by (simp add: quantum_def power_int_diff)
  with b(1) have "quantum w \<le> w / 2 ^ 52"
    by (simp add: divide_right_mono)
  then have "quantum w / 2 \<le> w / 2 ^ 53" by simp
  with nearest64_error [of w] have "w - w / 2 ^ 53 \<le> nearest64 w"
    by linarith
  then have "w * (1 - 1 / 2 ^ 53) \<le> nearest64 w"
    by (simp add: algebra_simps)
  then show ?thesis
    using pos by (simp add: round64_alt)
qed

lemma round64_not_NaN: "round64 x \<noteq> NaN"
  by (simp add: round64_alt)

text \<open>
  The rounding of a given real is settled by its exponent and its significand: the value
  \<open>n * 2 ^ (e - 52)\<close> is the rounding of every \<open>x\<close> with exponent \<open>e\<close> whose quotient by
  \<open>2 ^ (e - 52)\<close> is nearer to \<open>n\<close> than one half.
\<close>

lemma ilog2_unique:
  assumes "2 powi e \<le> x" "x < 2 powi (e + 1)"
  shows "ilog2 x = e"
proof -
  have pos: "0 < x"
    using assms(1) zero_less_power_int [of "2::real" e] by linarith
  note b = ilog2_bounds [OF pos]
  have "\<not> ilog2 x < e"
  proof
    assume "ilog2 x < e"
    then have "(2::real) powi (ilog2 x + 1) \<le> 2 powi e"
      by (intro power_int_increasing) simp_all
    with b(2) assms(1) show False by linarith
  qed
  moreover have "\<not> e < ilog2 x"
  proof
    assume "e < ilog2 x"
    then have "(2::real) powi (e + 1) \<le> 2 powi ilog2 x"
      by (intro power_int_increasing) simp_all
    with b(1) assms(2) show False by linarith
  qed
  ultimately show ?thesis by linarith
qed

lemma round_even_eqI:
  assumes "\<bar>z - real_of_int n\<bar> < 1 / 2"
  shows "round_even z = n"
proof -
  have "\<bar>real_of_int (round_even z) - real_of_int n\<bar> < 1"
    using round_even_near [of z] assms by linarith
  then have "\<bar>real_of_int (round_even z - n)\<bar> < 1" by simp
  then have "\<bar>round_even z - n\<bar> < 1" by linarith
  then show ?thesis by simp
qed

lemma round64_eqI:
  assumes "2 powi e \<le> \<bar>x\<bar>" "\<bar>x\<bar> < 2 powi (e + 1)" "- 1022 \<le> e"
    and "\<bar>x / 2 powi (e - 52) - real_of_int n\<bar> < 1 / 2"
    and "y = real_of_int n * 2 powi (e - 52)" "\<bar>y\<bar> < 2 ^ 1024"
  shows "round64 x = Fin y"
proof -
  have "0 < \<bar>x\<bar>"
    using assms(1) zero_less_power_int [of "2::real" e] by linarith
  then have nz: "x \<noteq> 0" by simp
  have "ilog2 \<bar>x\<bar> = e" using assms(1,2) by (rule ilog2_unique)
  then have q: "quantum x = 2 powi (e - 52)"
    using assms(3) by (simp add: quantum_def)
  have "nearest64 x = y"
    using round_even_eqI [OF assms(4)] by (simp add: nearest64_def q assms(5))
  then show ?thesis
    using nz assms(6) by (simp add: round64_def)
qed

lemma round64_int:
  assumes "\<bar>n\<bar> < 2 ^ 53"
  shows "round64 (real_of_int n) = Fin (real_of_int n)"
  using round64_sandwich [of n "real_of_int n" n] assms by auto

lemma round64_numeral:
  "(numeral k :: int) < 2 ^ 53 \<Longrightarrow> round64 (numeral k) = Fin (numeral k)"
  using round64_int [of "numeral k"] by simp

lemma round64_1: "round64 1 = Fin 1"
  using round64_int [of 1] by simp

lemma round64_0: "round64 0 = Fin 0"
  by (simp add: round64_def)

text \<open>
  The binary64 values of the decimals, quotients, products and differences that the
  examples below compute.
\<close>

lemma round64_3_2: "round64 (3 / 2) = Fin (3 / 2)"
  by (rule round64_eqI [where e = "0" and n = "6755399441055744"]) simp_all

lemma round64_1_2: "round64 (1 / 2) = Fin (1 / 2)"
  by (rule round64_eqI [where e = "- 1" and n = "4503599627370496"]) simp_all

lemma round64_1_10: "round64 (1 / 10) = Fin (3602879701896397 / 36028797018963968)"
  by (rule round64_eqI [where e = "- 4" and n = "7205759403792794"]) simp_all

lemma round64_1_5: "round64 (1 / 5) = Fin (3602879701896397 / 18014398509481984)"
  by (rule round64_eqI [where e = "- 3" and n = "7205759403792794"]) simp_all

lemma round64_3_10: "round64 (3 / 10) = Fin (5404319552844595 / 18014398509481984)"
  by (rule round64_eqI [where e = "- 2" and n = "5404319552844595"]) simp_all

lemma round64_7_10: "round64 (7 / 10) = Fin (3152519739159347 / 4503599627370496)"
  by (rule round64_eqI [where e = "- 1" and n = "6305039478318694"]) simp_all

lemma round64_3_5: "round64 (3 / 5) = Fin (5404319552844595 / 9007199254740992)"
  by (rule round64_eqI [where e = "- 1" and n = "5404319552844595"]) simp_all

lemma round64_2_5: "round64 (2 / 5) = Fin (3602879701896397 / 9007199254740992)"
  by (rule round64_eqI [where e = "- 2" and n = "7205759403792794"]) simp_all

lemma round64_1_24: "round64 (1 / 24) = Fin (6004799503160661 / 144115188075855872)"
  by (rule round64_eqI [where e = "- 5" and n = "6004799503160661"]) simp_all

lemma round64_23_24: "round64 (23 / 24) = Fin (8631899285793451 / 9007199254740992)"
  by (rule round64_eqI [where e = "- 1" and n = "8631899285793451"]) simp_all

lemma round64_0_9: "round64 (9 / 10) = Fin (8106479329266893 / 9007199254740992)"
  by (rule round64_eqI [where e = "- 1" and n = "8106479329266893"]) simp_all

lemma round64_1_1: "round64 (11 / 10) = Fin (2476979795053773 / 2251799813685248)"
  by (rule round64_eqI [where e = "0" and n = "4953959590107546"]) simp_all

lemma round64_0_85: "round64 (17 / 20) = Fin (7656119366529843 / 9007199254740992)"
  by (rule round64_eqI [where e = "- 1" and n = "7656119366529843"]) simp_all

lemma round64_1_15: "round64 (23 / 20) = Fin (2589569785738035 / 2251799813685248)"
  by (rule round64_eqI [where e = "0" and n = "5179139571476070"]) simp_all

lemma round64_0_015: "round64 (3 / 200) = Fin (1080863910568919 / 72057594037927936)"
  by (rule round64_eqI [where e = "- 7" and n = "8646911284551352"]) simp_all

lemma round64_1_236: "round64 (309 / 250) = Fin (5566449139429933 / 4503599627370496)"
  by (rule round64_eqI [where e = "0" and n = "5566449139429933"]) simp_all

lemma round64_1_10_x100: "round64 (90071992547409925 / 9007199254740992) = Fin 10"
  by (rule round64_eqI [where e = "3" and n = "5629499534213120"]) simp_all

lemma round64_1_5_x100: "round64 (90071992547409925 / 4503599627370496) = Fin 20"
  by (rule round64_eqI [where e = "4" and n = "5629499534213120"]) simp_all

lemma round64_3_10_x100: "round64 (135107988821114875 / 4503599627370496) = Fin 30"
  by (rule round64_eqI [where e = "4" and n = "8444249301319680"]) simp_all

lemma round64_7_10_x100: "round64 (78812993478983675 / 1125899906842624) = Fin 70"
  by (rule round64_eqI [where e = "6" and n = "4925812092436480"]) simp_all

lemma round64_3_5_x100: "round64 (135107988821114875 / 2251799813685248) = Fin 60"
  by (rule round64_eqI [where e = "5" and n = "8444249301319680"]) simp_all

lemma round64_2_5_x100: "round64 (90071992547409925 / 2251799813685248) = Fin 40"
  by (rule round64_eqI [where e = "5" and n = "5629499534213120"]) simp_all

lemma round64_1_24_x100: "round64 (150119987579016525 / 36028797018963968) = Fin (2345624805922133 / 562949953421312)"
  by (rule round64_eqI [where e = "2" and n = "4691249611844266"]) simp_all

lemma round64_23_24_x100: "round64 (215797482144836275 / 2251799813685248) = Fin (3371835658513067 / 35184372088832)"
  by (rule round64_eqI [where e = "6" and n = "6743671317026134"]) simp_all

lemma round64_0_015_x100: "round64 (27021597764222975 / 18014398509481984) = Fin (3 / 2)"
  by (rule round64_eqI [where e = "0" and n = "6755399441055744"]) simp_all

lemma round64_100_minus_a: "round64 (53949370536209067 / 562949953421312) = Fin (6743671317026133 / 70368744177664)"
  by (rule round64_eqI [where e = "6" and n = "6743671317026133"]) simp_all

lemma round64_t1_minus_d: "round64 (- (1 / 70368744177664)) = Fin (- (1 / 70368744177664))"
  by (rule round64_eqI [where e = "- 46" and n = "- 4503599627370496"]) simp_all

lemma round64_overflow:
  assumes "2 ^ 1024 \<le> x"
  shows "round64 x = PInf"
proof -
  have "(0::real) < 2 ^ 1024" by simp
  with assms have pos: "0 < x" by linarith
  then have ax: "\<bar>x\<bar> = x" "0 < \<bar>x\<bar>" by simp_all
  have big: "1024 \<le> ilog2 x"
  proof (rule ccontr)
    assume "\<not> 1024 \<le> ilog2 x"
    then have "(2::real) powi (ilog2 x + 1) \<le> 2 powi 1024"
      by (intro power_int_increasing) simp_all
    with ilog2_bounds(2) [OF pos] assms show False by simp
  qed
  then have e: "max (ilog2 x) (- 1022) = ilog2 x" by simp
  define q where "q = quantum x"
  have q: "q = 2 powi (ilog2 x - 52)" "0 < q"
    unfolding q_def by (simp_all add: quantum_def ax(1) e quantum_pos)
  have split: "(2::real) powi ilog2 x = 2 ^ 52 * q"
    unfolding q(1) by (simp add: power_int_diff)
  have "2 ^ 52 * q \<le> x" using ilog2_bounds(1) [OF pos] split by simp
  then have "2 ^ 52 \<le> x / q" using q(2) by (simp add: pos_le_divide_eq)
  then have "real_of_int (2 ^ 52) \<le> x / q" by simp
  then have "2 ^ 52 \<le> round_even (x / q)" by (rule round_even_ge)
  then have "real_of_int (2 ^ 52) \<le> real_of_int (round_even (x / q))" by linarith
  then have "real_of_int (2 ^ 52) * q \<le> real_of_int (round_even (x / q)) * q"
    using q(2) by (intro mult_right_mono) simp_all
  then have "2 powi ilog2 x \<le> nearest64 x"
    unfolding split by (simp add: nearest64_def q_def)
  moreover have "(2::real) powi 1024 \<le> 2 powi ilog2 x"
    using big by (intro power_int_increasing) simp_all
  ultimately have "2 ^ 1024 \<le> \<bar>nearest64 x\<bar>" by simp
  then show ?thesis using pos by (simp add: round64_def)
qed

lemma round64_underflow:
  assumes "\<bar>x\<bar> < 1 / 2 ^ 1075"
  shows "round64 x = Fin 0"
proof (cases "x = 0")
  case True
  then show ?thesis by (simp add: round64_def)
next
  case False
  then have pos: "0 < \<bar>x\<bar>" by simp
  have "\<not> - 1022 < ilog2 \<bar>x\<bar>"
  proof
    assume "- 1022 < ilog2 \<bar>x\<bar>"
    then have "(2::real) powi (- 1022) \<le> 2 powi ilog2 \<bar>x\<bar>"
      by (intro power_int_increasing) simp_all
    with ilog2_bounds(1) [OF pos] have "(2::real) powi (- 1022) \<le> \<bar>x\<bar>" by linarith
    moreover have "(1 / 2 ^ 1075 :: real) \<le> 2 powi (- 1022)"
      by (simp add: power_int_minus field_simps)
    ultimately show False using assms by linarith
  qed
  then have q: "quantum x = 2 powi (- 1074)" by (simp add: quantum_def max_def)
  have "\<bar>x / 2 powi (- 1074)\<bar> < 1 / 2"
    using assms by (simp add: power_int_minus field_simps)
  then have "\<bar>x / 2 powi (- 1074) - real_of_int 0\<bar> < 1 / 2" by simp
  then have "round_even (x / 2 powi (- 1074)) = 0" by (rule round_even_eqI)
  then have "nearest64 x = 0" by (simp add: nearest64_def q)
  then show ?thesis by (simp add: round64_def)
qed

subsection \<open>Numbers, digits and \<^verbatim>\<open>toFixed\<close>\<close>

lemma Math_max_Fin: "Math_max (Fin a) (Fin b) = Fin (max a b)"
  by (simp add: Math_max_def max_def)

lemma Math_min_Fin: "Math_min (Fin a) (Fin b) = Fin (min a b)"
  by (simp add: Math_min_def min_def)

lemma nearest_integer_bounds:
  "real_of_int (nearest_integer y) - y \<le> 1 / 2" "- (1 / 2) < real_of_int (nearest_integer y) - y"
  unfolding nearest_integer_def by linarith+

lemma nearest_integer_closest:
  "\<bar>real_of_int (nearest_integer y) - y\<bar> \<le> \<bar>real_of_int m - y\<bar>"
proof -
  let ?n = "nearest_integer y"
  have near: "\<bar>real_of_int ?n - y\<bar> \<le> 1 / 2"
    using nearest_integer_bounds [of y] by linarith
  consider "m \<le> ?n - 1" | "m = ?n" | "?n + 1 \<le> m" by linarith
  then show ?thesis
  proof cases
    case 1
    then have "real_of_int m \<le> real_of_int ?n - 1" by linarith
    with nearest_integer_bounds [of y] have "1 / 2 \<le> \<bar>real_of_int m - y\<bar>" by linarith
    with near show ?thesis by linarith
  next
    case 2
    then show ?thesis by simp
  next
    case 3
    then have "real_of_int ?n + 1 \<le> real_of_int m" by linarith
    with nearest_integer_bounds [of y] have "1 / 2 \<le> \<bar>real_of_int m - y\<bar>" by linarith
    with near show ?thesis by linarith
  qed
qed

lemma nearest_integer_tie:
  assumes "\<bar>real_of_int m - y\<bar> = \<bar>real_of_int (nearest_integer y) - y\<bar>"
  shows "m \<le> nearest_integer y"
proof (rule ccontr)
  assume "\<not> m \<le> nearest_integer y"
  then have "real_of_int (nearest_integer y) + 1 \<le> real_of_int m" by linarith
  with nearest_integer_bounds [of y] have "1 / 2 < \<bar>real_of_int m - y\<bar>" by linarith
  moreover have "\<bar>real_of_int (nearest_integer y) - y\<bar> \<le> 1 / 2"
    using nearest_integer_bounds [of y] by linarith
  ultimately show False using assms by linarith
qed

lemma digits10_nonempty: "digits10 n \<noteq> []"
  by (subst digits10.simps) simp

lemma digits10_small: "d \<in> set (digits10 n) \<Longrightarrow> d < 10"
proof (induction n arbitrary: d rule: digits10.induct)
  case (1 n)
  show ?case
  proof (cases "n < 10")
    case True
    with "1.prems" show ?thesis by (simp add: digits10.simps [of n])
  next
    case False
    with "1.prems" have "d \<in> set (digits10 (n div 10)) \<or> d = n mod 10"
      by (auto simp: digits10.simps [of n])
    with False "1.IH" show ?thesis by auto
  qed
qed

lemma digit_of_digit_char: "d < 10 \<Longrightarrow> digit_of 10 (digit_char d) = Some d"
proof -
  assume "d < 10"
  then have "d = 0 \<or> d = 1 \<or> d = 2 \<or> d = 3 \<or> d = 4 \<or> d = 5 \<or> d = 6 \<or> d = 7 \<or> d = 8 \<or> d = 9"
    by arith
  then show ?thesis
    by (auto simp: digit_of_def digit_char_def)
qed

lemma dec_nonempty: "dec n \<noteq> []"
  by (simp add: dec_def digits10_nonempty)

lemma dec_digits: "c \<in> set (dec n) \<Longrightarrow> digit_of 10 c \<noteq> None"
  by (auto simp: dec_def dest!: digits10_small digit_of_digit_char)

lemma dec_all_digits: "list_all (is_digit 10) (dec n)"
  by (simp add: list_all_iff is_digit_def dec_digits)

lemma digits_value_snoc:
  "digits_value b (ds @ [c]) = b * digits_value b ds + (case digit_of b c of Some v \<Rightarrow> v | None \<Rightarrow> 0)"
  by (simp add: digits_value_def)

lemma digits_value_dec: "digits_value 10 (dec n) = n"
proof (induction n rule: digits10.induct)
  case (1 n)
  show ?case
  proof (cases "n < 10")
    case True
    then show ?thesis
      by (simp add: dec_def digits10.simps [of n] digits_value_def digit_of_digit_char)
  next
    case False
    have "dec n = dec (n div 10) @ [digit_char (n mod 10)]"
      using False by (simp add: dec_def digits10.simps [of n])
    then show ?thesis
      using "1.IH" False by (simp add: digits_value_snoc digit_of_digit_char)
  qed
qed

lemma is_digit_zero: "is_digit 10 0x30"
  by (simp add: is_digit_def digit_of_def)

lemma hd_digits:
  assumes "xs \<noteq> []" "list_all (is_digit 10) xs"
  shows "is_digit 10 (hd (xs @ ys))"
  using assms by (cases xs) simp_all

lemma fixed_digits_hd:
  "fixed_digits x f \<noteq> [] \<and> is_digit 10 (hd (fixed_digits x f))"
proof (cases "f = 0")
  case True
  then show ?thesis
    using hd_digits [OF dec_nonempty dec_all_digits, of _ "[]"]
    by (simp add: fixed_digits_def dec_nonempty)
next
  case False
  define m where "m = dec (nat (nearest_integer (x * 10 ^ f)))"
  define m' where "m' = replicate (f + 1 - length m) (0x30 :: 16 word) @ m"
  have "list_all (is_digit 10) (replicate j (0x30 :: 16 word))" for j
    by (simp add: list_all_iff is_digit_zero)
  then have all: "list_all (is_digit 10) m'"
    by (simp add: m'_def m_def dec_all_digits)
  have len: "f < length m'"
    by (simp add: m'_def)
  have ne: "take (length m' - f) m' \<noteq> []"
    using len by (auto simp: take_eq_Nil)
  have "list_all (is_digit 10) (take (length m' - f) m')"
    using all by (auto simp: list_all_iff dest: in_set_takeD)
  from hd_digits [OF ne this]
  have hd: "is_digit 10 (hd (take (length m' - f) m' @ lit ''.'' @ drop (length m' - f) m'))" .
  have eq: "fixed_digits x f = take (length m' - f) m' @ lit ''.'' @ drop (length m' - f) m'"
    using False unfolding fixed_digits_def Let_def m'_def m_def by simp
  show ?thesis
    unfolding eq using hd ne by simp
qed

lemma positive_toString_hd:
  "positive_toString sd x \<noteq> [] \<and> is_digit 10 (hd (positive_toString sd x))"
proof -
  obtain s n where sd: "sd x = (s, n)" by (cases "sd x")
  have d: "dec s \<noteq> []" "list_all (is_digit 10) (dec s)" "is_digit 10 (hd (dec s))"
    using dec_nonempty dec_all_digits hd_digits [OF dec_nonempty dec_all_digits, of s "[]"]
    by simp_all
  have t: "is_digit 10 (hd (take (nat n) (dec s) @ ys))" "take (nat n) (dec s) \<noteq> []" if "0 < n" for ys
  proof -
    show ne: "take (nat n) (dec s) \<noteq> []" using that d(1) by simp
    have "list_all (is_digit 10) (take (nat n) (dec s))"
      using d(2) by (auto simp: list_all_iff dest: in_set_takeD)
    from hd_digits [OF ne this] show "is_digit 10 (hd (take (nat n) (dec s) @ ys))" .
  qed
  show ?thesis
    using d t hd_digits [OF d(1) d(2)]
    by (simp add: positive_toString_def sd Let_def lit_def is_digit_zero)
qed

lemma toFixed_finite_hd:
  assumes "toFixed sd (Fin r) fd = Inr s"
  shows "s \<noteq> [] \<and> (hd s = 0x2D \<or> is_digit 10 (hd s))"
proof -
  have big: "Number_toString sd (Fin \<bar>r\<bar>) \<noteq> [] \<and> is_digit 10 (hd (Number_toString sd (Fin \<bar>r\<bar>)))"
    using positive_toString_hd [of sd "\<bar>r\<bar>"] by (simp add: lit_def is_digit_zero)
  show ?thesis
    using assms big fixed_digits_hd [of "\<bar>r\<bar>" "nat fd"]
    by (auto simp: toFixed_def Let_def lit_def split: if_splits)
qed

lemma digits_value_append:
  "digits_value 10 (xs @ ys) = digits_value 10 xs * 10 ^ length ys + digits_value 10 ys"
proof (induction ys rule: rev_induct)
  case Nil
  then show ?case by (simp add: digits_value_def)
next
  case (snoc y ys)
  have "digits_value 10 (xs @ ys @ [y]) = digits_value 10 ((xs @ ys) @ [y])" by simp
  also have "\<dots> = 10 * digits_value 10 (xs @ ys) + (case digit_of 10 y of Some v \<Rightarrow> v | None \<Rightarrow> 0)"
    by (rule digits_value_snoc)
  finally show ?case
    using snoc by (simp add: digits_value_snoc algebra_simps)
qed

lemma digits_value_zeros: "digits_value 10 (replicate k 0x30) = 0"
proof (induction k)
  case 0
  show ?case by (simp add: digits_value_def)
next
  case (Suc k)
  have z: "digit_of 10 0x30 = Some 0" by (simp add: digit_of_def)
  have "replicate (Suc k) (0x30 :: 16 word) = replicate k 0x30 @ [0x30]"
    by (simp add: replicate_append_same)
  then have "digits_value 10 (replicate (Suc k) 0x30) = 10 * digits_value 10 (replicate k 0x30) + 0"
    by (simp only: digits_value_snoc z option.case)
  with Suc show ?case by simp
qed

lemma fixed_digits_1236_binary64: "fixed_digits (5566449139429933 / 2 ^ 52) 2 = lit ''1.24''"
  by code_simp

lemma Number_abc: "Number (JStr (lit ''abc'')) = NaN"
  by code_simp

lemma digits10_hd: "0 < n \<Longrightarrow> hd (digits10 n) \<noteq> 0"
proof (induction n rule: digits10.induct)
  case (1 n)
  show ?case
  proof (cases "n < 10")
    case True
    then show ?thesis using "1.prems" by (simp add: digits10.simps [of n])
  next
    case False
    then have "0 < n div 10" by simp
    with "1.IH" False have "hd (digits10 (n div 10)) \<noteq> 0" by simp
    then show ?thesis
      using False digits10_nonempty [of "n div 10"] by (simp add: digits10.simps [of n])
  qed
qed

lemma digit_char_zero: "d < 10 \<Longrightarrow> digit_char d = 0x30 \<Longrightarrow> d = 0"
proof -
  assume d: "d < 10" and z: "digit_char d = 0x30"
  have "digit_of 10 (digit_char d) = Some d" using d by (rule digit_of_digit_char)
  moreover have "digit_of 10 (0x30 :: 16 word) = Some 0" by (simp add: digit_of_def)
  ultimately show "d = 0" using z by simp
qed

lemma dec_hd: "0 < n \<Longrightarrow> hd (dec n) \<noteq> 0x30"
proof
  assume n: "0 < n" and z: "hd (dec n) = 0x30"
  have ne: "digits10 n \<noteq> []" by (rule digits10_nonempty)
  then have "hd (dec n) = digit_char (hd (digits10 n))"
    by (simp add: dec_def hd_map)
  moreover have "hd (digits10 n) < 10"
    using ne digits10_small [of "hd (digits10 n)" n] by simp
  ultimately have "hd (digits10 n) = 0" using z digit_char_zero by simp
  with digits10_hd [OF n] show False by simp
qed

lemma dec_0: "dec 0 = lit ''0''"
  by code_simp

lemma dec_canonical: "(hd (dec n) = 0x30) = (dec n = lit ''0'')"
proof (cases "n = 0")
  case True
  then show ?thesis by (simp add: dec_0 lit_def)
next
  case False
  then have "hd (dec n) \<noteq> 0x30" using dec_hd by simp
  moreover have "dec n \<noteq> lit ''0''"
  proof
    assume "dec n = lit ''0''"
    then have "hd (dec n) = 0x30" by (simp add: lit_def)
    with \<open>hd (dec n) \<noteq> 0x30\<close> show False by simp
  qed
  ultimately show ?thesis by simp
qed

lemma fixed_digits_shape:
  "\<exists>ip fp. fixed_digits a f = ip @ (if f = 0 then [] else lit ''.'' @ fp)
           \<and> ip \<noteq> [] \<and> list_all (is_digit 10) ip \<and> (hd ip = 0x30) = (ip = lit ''0'')
           \<and> list_all (is_digit 10) fp \<and> length fp = f
           \<and> digits_value 10 (ip @ fp) = nat (nearest_integer (a * 10 ^ f))"
proof (cases "f = 0")
  case True
  then show ?thesis
    using dec_canonical [of "nat (nearest_integer a)"]
    by (auto simp: fixed_digits_def dec_nonempty dec_all_digits digits_value_dec
          intro!: exI [of _ "dec (nat (nearest_integer a))"] exI [of _ "[]"])
next
  case False
  define m where "m = dec (nat (nearest_integer (a * 10 ^ f)))"
  define m' where "m' = replicate (f + 1 - length m) (0x30 :: 16 word) @ m"
  define ip where "ip = take (length m' - f) m'"
  define fp where "fp = drop (length m' - f) m'"
  have "list_all (is_digit 10) (replicate j (0x30 :: 16 word))" for j
    by (simp add: list_all_iff is_digit_zero)
  then have all: "list_all (is_digit 10) m'"
    by (simp add: m'_def m_def dec_all_digits)
  have len: "f < length m'"
    by (simp add: m'_def)
  have ne: "ip \<noteq> []"
    using len by (auto simp: ip_def take_eq_Nil)
  have ipd: "list_all (is_digit 10) ip"
    using all by (auto simp: ip_def list_all_iff dest: in_set_takeD)
  have fpd: "list_all (is_digit 10) fp"
    using all by (auto simp: fp_def list_all_iff dest: in_set_dropD)
  have lfp: "length fp = f"
    using len by (simp add: fp_def)
  have "digits_value 10 m' = digits_value 10 m"
    by (simp add: m'_def digits_value_append digits_value_zeros)
  then have val: "digits_value 10 (ip @ fp) = nat (nearest_integer (a * 10 ^ f))"
    by (simp add: ip_def fp_def m_def digits_value_dec)
  have eq: "fixed_digits a f = ip @ lit ''.'' @ fp"
    using False unfolding fixed_digits_def Let_def ip_def fp_def m'_def m_def
    by (simp add: lit_def)
  have canon: "(hd ip = 0x30) = (ip = lit ''0'')"
  proof (cases "length m \<le> f")
    case True
    then have l: "length m' - f = 1"
      by (simp add: m'_def)
    obtain k where "f + 1 - length m = Suc k"
      using True by (cases "f + 1 - length m") simp_all
    then have "m' = 0x30 # replicate k 0x30 @ m"
      by (simp add: m'_def)
    then have "take 1 m' = [0x30]" by simp
    then have "ip = [0x30]"
      unfolding ip_def l .
    then show ?thesis by (simp add: lit_def)
  next
    case long: False
    then have m': "m' = m" by (simp add: m'_def)
    have mne: "m \<noteq> []" by (simp add: m_def dec_nonempty)
    have pos: "0 < nat (nearest_integer (a * 10 ^ f))"
    proof (rule ccontr)
      assume "\<not> 0 < nat (nearest_integer (a * 10 ^ f))"
      then have "m = lit ''0''" by (simp add: m_def dec_0)
      then have "length m = 1" by (simp add: lit_def)
      with long False show False by simp
    qed
    have "hd ip = hd m"
      using long mne by (cases m) (simp_all add: ip_def m')
    then have h: "hd ip \<noteq> 0x30"
      using dec_hd [OF pos] by (simp add: m_def)
    moreover have "ip \<noteq> lit ''0''"
    proof
      assume "ip = lit ''0''"
      then have "hd ip = 0x30" by (simp add: lit_def)
      with h show False by simp
    qed
    ultimately show ?thesis by simp
  qed
  show ?thesis
    using False eq ne ipd fpd lfp val canon by auto
qed

lemma positive_toString_1e21: "positive_toString (\<lambda>x. (1, 22)) r = lit ''1e+21''"
  by code_simp

lemma toFixed_0:
  assumes "0 \<le> r" "r \<le> 100"
  shows "toFixed sd (Fin r) 0 = Inr (dec (nat (nearest_integer r)))"
  using assms by (simp add: toFixed_def fixed_digits_def Let_def)

text \<open>
  The coercion of a string rounds its decimal like the language does: beyond the largest
  binary64 value it gives an infinity, below half the smallest one it gives zero.
\<close>

lemma Number_1e309: "Number (JStr (lit ''1e309'')) = PInf"
  by (simp add: StringToNumber_def trim_def is_ws_def radix_of_def unsigned_decimal_def lit_def
        is_digit_def digit_of_def digits_value_def exponent_of_def scale10_def Let_def
        round64_overflow)

lemma Number_1e_324: "Number (JStr (lit ''1e-324'')) = Fin 0"
  by (simp add: StringToNumber_def trim_def is_ws_def radix_of_def unsigned_decimal_def lit_def
        is_digit_def digit_of_def digits_value_def exponent_of_def scale10_def Let_def
        round64_underflow)

lemma ratio01_1e309: "ratio01 (JStr (lit ''1e309'')) = Fin 0"
  using Number_1e309 by (simp add: ratio01_def)

subsection \<open>Coercion and formatting\<close>

text \<open>
  C2. For every input \<open>x\<close>, of any shape, \<^verbatim>\<open>ratio01(x)\<close> of the numeric library and
  \<^verbatim>\<open>num01(x)\<close> of the screen return a finite number in the closed interval from 0 to 1:
  the coerced value clamped to that interval when the coercion \<^verbatim>\<open>Number(x)\<close> is finite,
  and 0 otherwise.
\<close>

theorem toUnitInterval_clamps:
  "(\<exists>r. ratio01 x = Fin r \<and> 0 \<le> r \<and> r \<le> 1)
   \<and> ratio01 x = (case Number x of Fin v \<Rightarrow> Fin (max 0 (min 1 v)) | PInf \<Rightarrow> Fin 0
                    | NInf \<Rightarrow> Fin 0 | NaN \<Rightarrow> Fin 0)
   \<and> num01 x = ratio01 x"
  by (cases "Number x") (simp_all add: ratio01_def num01_def Math_max_Fin Math_min_Fin)

lemma percent_product:
  assumes "0 \<le> c" "c \<le> 1"
  shows "\<exists>r. round64 (c * 100) = Fin r \<and> 0 \<le> r \<and> r \<le> 100 \<and> \<bar>r - c * 100\<bar> \<le> 1 / 2 ^ 46"
proof -
  have b: "real_of_int 0 \<le> c * 100" "c * 100 \<le> real_of_int 100"
    using assms by simp_all
  obtain r where r: "round64 (c * 100) = Fin r" "0 \<le> r" "r \<le> 100"
    using round64_sandwich [OF b] by auto
  have "\<bar>c * 100\<bar> \<le> 2 ^ 7" using assms by simp
  from round64_error [OF this] obtain r' where "round64 (c * 100) = Fin r'"
    "\<bar>r' - c * 100\<bar> \<le> 2 ^ 7 / 2 ^ 53" by auto
  with r have "\<bar>r - c * 100\<bar> \<le> 1 / 2 ^ 46" by simp
  with r show ?thesis by blast
qed

lemma percent_range:
  assumes "0 \<le> r" "r \<le> 100"
  shows "nat (nearest_integer r) \<le> 100" "0 \<le> nearest_integer r"
  using assms by (simp_all add: nearest_integer_def) linarith+

lemma pct_finite:
  assumes "Number x = Fin v" "round64 (max 0 (min 1 v) * 100) = Fin r" "0 \<le> r" "r \<le> 100"
  shows "pct sd x dash = Inr (dec (nat (nearest_integer r)) @ lit ''%'')"
  using assms by (simp add: pct_def Math_max_Fin Math_min_Fin toFixed_0)

lemma pct_not_finite:
  assumes "\<not> Number_isFinite (Number x)"
  shows "pct sd x dash = Inr dash"
  using assms by (simp add: pct_def)

text \<open>
  C3. For every input \<open>x\<close>, \<^verbatim>\<open>pct(x, dash)\<close> returns the fallback text when \<open>x\<close> does not
  coerce to a finite number, and otherwise the decimal digits of an integer followed by
  \<^verbatim>\<open>%\<close>. The integer is at most 100 and is an integer nearest to \<open>r\<close>, the binary64 product
  of 100 and the coerced value clamped to the interval from 0 to 1; \<open>r\<close> lies between 0
  and 100 and within \<open>1 / 2 ^ 46\<close> of the exact product. With the em dash as fallback
  text, the result is the fallback text exactly when the coercion is not finite. At the
  number 0.015 the product is rounded to 1.5 and the result is \<^verbatim>\<open>2%\<close>; the numbers 0 and 7
  give \<^verbatim>\<open>0%\<close> and \<^verbatim>\<open>100%\<close>.
\<close>

theorem formatPercent_fallback_or_percent:
  "(case Number x of
      Fin v \<Rightarrow>
        (\<exists>r. js_mul (Fin (max 0 (min 1 v))) (Fin 100) = Fin r
           \<and> 0 \<le> r \<and> r \<le> 100 \<and> \<bar>r - max 0 (min 1 v) * 100\<bar> \<le> 1 / 2 ^ 46
           \<and> pct sd x dash = Inr (dec (nat (nearest_integer r)) @ lit ''%'')
           \<and> nat (nearest_integer r) \<le> 100
           \<and> real (nat (nearest_integer r)) = real_of_int (nearest_integer r)
           \<and> (\<forall>m. \<bar>real_of_int (nearest_integer r) - r\<bar> \<le> \<bar>real_of_int m - r\<bar>))
    | PInf \<Rightarrow> pct sd x dash = Inr dash
    | NInf \<Rightarrow> pct sd x dash = Inr dash
    | NaN \<Rightarrow> pct sd x dash = Inr dash)
   \<and> digits_value 10 (dec n) = n \<and> list_all (is_digit 10) (dec n)
   \<and> (pct sd x em_dash = Inr em_dash) = (\<not> Number_isFinite (Number x))
   \<and> pct sd (JNum (round64 0.015)) dash = Inr (lit ''2%'')
   \<and> pct sd (JNum (Fin 0)) dash = Inr (lit ''0%'')
   \<and> pct sd (JNum (Fin 7)) dash = Inr (lit ''100%'')"
proof -
  have fin: "\<exists>r. js_mul (Fin (max 0 (min 1 v))) (Fin 100) = Fin r
           \<and> 0 \<le> r \<and> r \<le> 100 \<and> \<bar>r - max 0 (min 1 v) * 100\<bar> \<le> 1 / 2 ^ 46
           \<and> pct sd x d = Inr (dec (nat (nearest_integer r)) @ lit ''%'')
           \<and> nat (nearest_integer r) \<le> 100
           \<and> real (nat (nearest_integer r)) = real_of_int (nearest_integer r)
           \<and> (\<forall>m. \<bar>real_of_int (nearest_integer r) - r\<bar> \<le> \<bar>real_of_int m - r\<bar>)"
    if v: "Number x = Fin v" for v d
  proof -
    obtain r where r: "round64 (max 0 (min 1 v) * 100) = Fin r" "0 \<le> r" "r \<le> 100"
      "\<bar>r - max 0 (min 1 v) * 100\<bar> \<le> 1 / 2 ^ 46"
      using percent_product [of "max 0 (min 1 v)"] by auto
    have "js_mul (Fin (max 0 (min 1 v))) (Fin 100) = Fin r" using r(1) by simp
    moreover note r(2,3,4) pct_finite [OF v r(1,2,3)] percent_range [OF r(2,3)]
    moreover have "real (nat (nearest_integer r)) = real_of_int (nearest_integer r)"
      using percent_range(2) [OF r(2,3)] by simp
    moreover have "\<forall>m. \<bar>real_of_int (nearest_integer r) - r\<bar> \<le> \<bar>real_of_int m - r\<bar>"
      using nearest_integer_closest by blast
    ultimately show ?thesis by blast
  qed
  have nonfin: "pct sd x d = Inr d" if "\<not> Number_isFinite (Number x)" for d
    using that by (rule pct_not_finite)
  have first: "(case Number x of
      Fin v \<Rightarrow>
        (\<exists>r. js_mul (Fin (max 0 (min 1 v))) (Fin 100) = Fin r
           \<and> 0 \<le> r \<and> r \<le> 100 \<and> \<bar>r - max 0 (min 1 v) * 100\<bar> \<le> 1 / 2 ^ 46
           \<and> pct sd x dash = Inr (dec (nat (nearest_integer r)) @ lit ''%'')
           \<and> nat (nearest_integer r) \<le> 100
           \<and> real (nat (nearest_integer r)) = real_of_int (nearest_integer r)
           \<and> (\<forall>m. \<bar>real_of_int (nearest_integer r) - r\<bar> \<le> \<bar>real_of_int m - r\<bar>))
    | PInf \<Rightarrow> pct sd x dash = Inr dash
    | NInf \<Rightarrow> pct sd x dash = Inr dash
    | NaN \<Rightarrow> pct sd x dash = Inr dash)"
  proof (cases "Number x")
    case (Fin v)
    then show ?thesis using fin [OF Fin, of dash] by simp
  qed (simp_all add: nonfin)
  have "dec k @ lit ''%'' \<noteq> em_dash" for k
    using dec_nonempty [of k] by (cases "dec k") (simp_all add: em_dash_def lit_def)
  then have iff: "(pct sd x em_dash = Inr em_dash) = (\<not> Number_isFinite (Number x))"
  proof (cases "Number x")
    case (Fin v)
    assume ne: "\<And>k. dec k @ lit ''%'' \<noteq> em_dash"
    from fin [OF Fin, of em_dash] obtain r where
      "pct sd x em_dash = Inr (dec (nat (nearest_integer r)) @ lit ''%'')" by blast
    then show ?thesis using ne Fin by simp
  qed (simp_all add: nonfin)
  have n2: "nat (nearest_integer (3 / 2)) = 2" "nearest_integer 0 = 0"
    "nat (nearest_integer 100) = 100"
    by (simp_all add: nearest_integer_def)
  have d: "dec 2 = lit ''2''" "dec 0 = lit ''0''" "dec 100 = lit ''100''" by code_simp+
  have ex: "pct sd (JNum (round64 0.015)) dash = Inr (lit ''2%'')"
    "pct sd (JNum (Fin 0)) dash = Inr (lit ''0%'')"
    "pct sd (JNum (Fin 7)) dash = Inr (lit ''100%'')"
    using n2 d
    by (simp_all add: pct_def round64_0_015 round64_0_015_x100 Math_max_Fin Math_min_Fin
          toFixed_0 round64_numeral round64_0 lit_def)
  show ?thesis
    using first digits_value_dec dec_all_digits iff ex by blast
qed

text \<open>
  C8. For every input \<open>x\<close>, \<^verbatim>\<open>num(x)\<close> is a finite number, so \<^verbatim>\<open>fmt(num(x), 2)\<close> takes the
  branch of \<^verbatim>\<open>toFixed\<close> and never returns the fallback text, be it the em dash or the
  default of \<^verbatim>\<open>fmt\<close>: the result starts with a minus sign or a digit.
\<close>

theorem formatFixed_after_toNumberOrZero:
  "Number_isFinite (num x)
   \<and> fmt sd (JNum (num x)) 2 dash = toFixed sd (num x) 2
   \<and> fmt sd (JNum (num x)) 2 em_dash \<noteq> Inr em_dash
   \<and> fmt sd (JNum (num x)) 2 default_dash \<noteq> Inr default_dash
   \<and> (\<exists>s. fmt sd (JNum (num x)) 2 dash = Inr s \<and> s \<noteq> []
          \<and> (hd s = 0x2D \<or> is_digit 10 (hd s)))"
proof -
  obtain r where r: "num x = Fin r"
    by (cases "Number x") (simp_all add: num_def)
  have f: "fmt sd (JNum (Fin r)) 2 d = toFixed sd (Fin r) 2" for d
    by (simp add: fmt_def)
  obtain s where s: "toFixed sd (Fin r) 2 = Inr s"
    by (cases "10 ^ 21 \<le> \<bar>r\<bar>") (simp_all add: toFixed_def Let_def)
  have nd: "\<not> is_digit 10 0x2014" "\<not> is_digit 10 0xE2"
    by (simp_all add: is_digit_def digit_of_def)
  from toFixed_finite_hd [OF s] have h: "s \<noteq> []" "hd s = 0x2D \<or> is_digit 10 (hd s)" by simp_all
  have "s \<noteq> em_dash" "s \<noteq> default_dash"
    using h nd by (auto simp: em_dash_def default_dash_def)
  then show ?thesis
    using h by (simp add: f s r)
qed

text \<open>
  C9, as it is stated, fails outside the range of \<^verbatim>\<open>toFixed\<close>: with 101 digits the finite
  value 1 gives no string but a \<^verbatim>\<open>RangeError\<close>, and the finite value \<open>10 ^ 21\<close>, which is a
  binary64 value, gives with 2 digits the exponent notation \<^verbatim>\<open>1e+21\<close> of \<^verbatim>\<open>toString\<close>,
  which is no fixed-decimal string. The digit generation taken here returns the digit 1
  and the exponent 22, the shortest digits of \<open>10 ^ 21\<close>.
\<close>

theorem formatFixed_not_always_fixed_decimal:
  "fmt (\<lambda>x. (1, 22)) (JNum (Fin 1)) 101 em_dash = Inl RangeError
   \<and> fmt (\<lambda>x. (1, 22)) (JNum (Fin (10 ^ 21))) 2 em_dash = Inr (lit ''1e+21'')
   \<and> round64 (10 ^ 21) = Fin (10 ^ 21)"
proof -
  have a: "fmt (\<lambda>x. (1, 22)) (JNum (Fin 1)) 101 em_dash = Inl RangeError"
    by (simp add: fmt_def toFixed_def)
  have b: "fmt (\<lambda>x. (1, 22)) (JNum (Fin (10 ^ 21))) 2 em_dash = Inr (lit ''1e+21'')"
    using positive_toString_1e21 [of "10 ^ 21"]
    by (simp add: fmt_def toFixed_def)
  have c: "round64 (10 ^ 21) = Fin (10 ^ 21)"
    by (rule round64_eqI [where e = 69 and n = "10 ^ 21 div 2 ^ 17"]) simp_all
  show ?thesis using a b c by blast
qed

text \<open>
  C9, as the code has it. \<^verbatim>\<open>fmt(value, digits, dash)\<close> returns the fallback text when
  the coerced value is not finite. When it is finite, a number of digits below 0 or above 100 raises a
  \<^verbatim>\<open>RangeError\<close>; otherwise a magnitude from \<open>10 ^ 21\<close> on gives the sign and the string of
  \<^verbatim>\<open>toString\<close>, and a smaller one the fixed-decimal string: a minus sign for a negative
  value, then an integer part that is the single digit 0 or starts with another digit,
  then, unless the number of digits is 0, a point and exactly that many decimals; read
  together, the digits are those of an integer nearest to the magnitude times the power
  of ten. \<^verbatim>\<open>fmt(1.236, 2, dash)\<close> is \<^verbatim>\<open>1.24\<close> and \<^verbatim>\<open>fmt("abc", 2, dash)\<close> is the dash.
\<close>

theorem formatFixed_outcomes:
  "(case Number x of
      Fin v \<Rightarrow>
        if digits < 0 \<or> 100 < digits then fmt sd x digits dash = Inl RangeError
        else if 10 ^ 21 \<le> \<bar>v\<bar>
          then fmt sd x digits dash
                 = Inr ((if v < 0 then lit ''-'' else []) @ Number_toString sd (Fin \<bar>v\<bar>))
          else (\<exists>ip fp.
                  fmt sd x digits dash
                    = Inr ((if v < 0 then lit ''-'' else []) @ ip
                           @ (if digits = 0 then [] else lit ''.'' @ fp))
                  \<and> ip \<noteq> [] \<and> list_all (is_digit 10) ip \<and> (hd ip = 0x30) = (ip = lit ''0'')
                  \<and> list_all (is_digit 10) fp \<and> int (length fp) = digits
                  \<and> int (digits_value 10 (ip @ fp)) = nearest_integer (\<bar>v\<bar> * 10 ^ nat digits)
                  \<and> (\<forall>m. \<bar>real_of_int (nearest_integer (\<bar>v\<bar> * 10 ^ nat digits))
                              - \<bar>v\<bar> * 10 ^ nat digits\<bar>
                            \<le> \<bar>real_of_int m - \<bar>v\<bar> * 10 ^ nat digits\<bar>))
    | PInf \<Rightarrow> fmt sd x digits dash = Inr dash
    | NInf \<Rightarrow> fmt sd x digits dash = Inr dash
    | NaN \<Rightarrow> fmt sd x digits dash = Inr dash)
   \<and> fmt sd (JNum (round64 1.236)) 2 em_dash = Inr (lit ''1.24'')
   \<and> fmt sd (JStr (lit ''abc'')) 2 em_dash = Inr em_dash"
proof -
  have a: "fmt sd x digits dash =
     (case Number x of
        Fin v \<Rightarrow>
          if digits < 0 \<or> 100 < digits then Inl RangeError
          else if 10 ^ 21 \<le> \<bar>v\<bar>
            then Inr ((if v < 0 then lit ''-'' else []) @ Number_toString sd (Fin \<bar>v\<bar>))
            else Inr ((if v < 0 then lit ''-'' else []) @ fixed_digits \<bar>v\<bar> (nat digits))
      | PInf \<Rightarrow> Inr dash | NInf \<Rightarrow> Inr dash | NaN \<Rightarrow> Inr dash)"
    by (cases "Number x") (simp_all add: fmt_def toFixed_def Let_def del: Number_toString.simps)
  have shape: "\<exists>ip fp.
                  fmt sd x digits dash
                    = Inr ((if v < 0 then lit ''-'' else []) @ ip
                           @ (if digits = 0 then [] else lit ''.'' @ fp))
                  \<and> ip \<noteq> [] \<and> list_all (is_digit 10) ip \<and> (hd ip = 0x30) = (ip = lit ''0'')
                  \<and> list_all (is_digit 10) fp \<and> int (length fp) = digits
                  \<and> int (digits_value 10 (ip @ fp)) = nearest_integer (\<bar>v\<bar> * 10 ^ nat digits)
                  \<and> (\<forall>m. \<bar>real_of_int (nearest_integer (\<bar>v\<bar> * 10 ^ nat digits))
                              - \<bar>v\<bar> * 10 ^ nat digits\<bar>
                            \<le> \<bar>real_of_int m - \<bar>v\<bar> * 10 ^ nat digits\<bar>)"
    if v: "Number x = Fin v" and r: "\<not> (digits < 0 \<or> 100 < digits)" "\<not> 10 ^ 21 \<le> \<bar>v\<bar>" for v
  proof -
    define f where "f = nat digits"
    have d: "digits = int f" "(digits = 0) = (f = 0)" using r(1) by (auto simp: f_def)
    have "0 \<le> \<bar>v\<bar> * 10 ^ f" by simp
    then have nn: "0 \<le> nearest_integer (\<bar>v\<bar> * 10 ^ f)"
      unfolding nearest_integer_def by linarith
    obtain ip fp where p: "fixed_digits \<bar>v\<bar> f = ip @ (if f = 0 then [] else lit ''.'' @ fp)"
      "ip \<noteq> []" "list_all (is_digit 10) ip" "(hd ip = 0x30) = (ip = lit ''0'')"
      "list_all (is_digit 10) fp" "length fp = f"
      "digits_value 10 (ip @ fp) = nat (nearest_integer (\<bar>v\<bar> * 10 ^ f))"
      using fixed_digits_shape [of "\<bar>v\<bar>" f] by blast
    have val: "int (digits_value 10 (ip @ fp)) = nearest_integer (\<bar>v\<bar> * 10 ^ f)"
      using p(7) nn by simp
    have res: "fmt sd x digits dash
                 = Inr ((if v < 0 then lit ''-'' else []) @ ip
                        @ (if digits = 0 then [] else lit ''.'' @ fp))"
      using r unfolding a v d(2) by (simp add: p(1) flip: f_def)
    have len: "int (length fp) = digits" using p(6) d(1) by simp
    have near: "\<forall>m. \<bar>real_of_int (nearest_integer (\<bar>v\<bar> * 10 ^ f)) - \<bar>v\<bar> * 10 ^ f\<bar>
            \<le> \<bar>real_of_int m - \<bar>v\<bar> * 10 ^ f\<bar>"
      using nearest_integer_closest by blast
    show ?thesis
      using res p(2,3,4,5) len val near unfolding f_def by blast
  qed
  have first: "(case Number x of
      Fin v \<Rightarrow>
        if digits < 0 \<or> 100 < digits then fmt sd x digits dash = Inl RangeError
        else if 10 ^ 21 \<le> \<bar>v\<bar>
          then fmt sd x digits dash
                 = Inr ((if v < 0 then lit ''-'' else []) @ Number_toString sd (Fin \<bar>v\<bar>))
          else (\<exists>ip fp.
                  fmt sd x digits dash
                    = Inr ((if v < 0 then lit ''-'' else []) @ ip
                           @ (if digits = 0 then [] else lit ''.'' @ fp))
                  \<and> ip \<noteq> [] \<and> list_all (is_digit 10) ip \<and> (hd ip = 0x30) = (ip = lit ''0'')
                  \<and> list_all (is_digit 10) fp \<and> int (length fp) = digits
                  \<and> int (digits_value 10 (ip @ fp)) = nearest_integer (\<bar>v\<bar> * 10 ^ nat digits)
                  \<and> (\<forall>m. \<bar>real_of_int (nearest_integer (\<bar>v\<bar> * 10 ^ nat digits))
                              - \<bar>v\<bar> * 10 ^ nat digits\<bar>
                            \<le> \<bar>real_of_int m - \<bar>v\<bar> * 10 ^ nat digits\<bar>))
    | PInf \<Rightarrow> fmt sd x digits dash = Inr dash
    | NInf \<Rightarrow> fmt sd x digits dash = Inr dash
    | NaN \<Rightarrow> fmt sd x digits dash = Inr dash)"
  proof (cases "Number x")
    case (Fin v)
    show ?thesis
    proof (cases "digits < 0 \<or> 100 < digits")
      case True
      then show ?thesis using a Fin by simp
    next
      case range: False
      show ?thesis
      proof (cases "10 ^ 21 \<le> \<bar>v\<bar>")
        case True
        then show ?thesis using a Fin range by (simp del: Number_toString.simps)
      next
        case False
        from shape [OF Fin range False] show ?thesis
          using Fin range False by simp
      qed
    qed
  qed (simp_all add: a)
  have d: "fmt sd (JNum (round64 1.236)) 2 em_dash = Inr (lit ''1.24'')"
    using fixed_digits_1236_binary64
    by (simp add: fmt_def toFixed_def round64_1_236)
  have e: "fmt sd (JStr (lit ''abc'')) 2 em_dash = Inr em_dash"
    using Number_abc by (simp add: fmt_def)
  show ?thesis
    using first d e by blast
qed

subsection \<open>The tone of a put/call ratio\<close>

lemma pcTone_number:
  "pcTone (JNum v) =
     (case v of
        Fin r \<Rightarrow> if r < 8106479329266893 / 2 ^ 53 then Good
                 else if 2476979795053773 / 2 ^ 51 < r then Warn else Neutral
      | PInf \<Rightarrow> Neutral | NInf \<Rightarrow> Neutral | NaN \<Rightarrow> Neutral)"
  by (cases v) (simp_all add: pcTone_def js_gt_def round64_0_9 round64_1_1)

lemma put_call_tone_p0_number: "put_call_tone_p0 (JNum v) = pcTone (JNum v)"
  by (cases v) (simp_all add: put_call_tone_p0_def pcTone_p0_def pcTone_def)

lemma pcTone_coerces: "pcTone x = pcTone (JNum (Number x))"
  by (simp add: pcTone_def)

lemma put_call_tone_p0_guard:
  "put_call_tone_p0 x = (case x of JNum v \<Rightarrow> pcTone (JNum v) | _ \<Rightarrow> Neutral)"
  by (cases x) (simp_all add: put_call_tone_p0_number, simp_all add: put_call_tone_p0_def)

text \<open>
  C7, as it is stated, gives every input one tone. For the ratio \<^verbatim>\<open>null\<close>, a value the
  field has in the payload, the two copies of the screen differ: \<^verbatim>\<open>pcTone\<close> of
  \<^verbatim>\<open>src/screens/InsightsScreen.tsx\<close> coerces it to 0 and answers good, where the guard
  \<^verbatim>\<open>isNum\<close> of \<^verbatim>\<open>unnamed/part_000\<close> answers neutral. Whether \<^verbatim>\<open>null\<close> counts as a finite ratio
  below 0.9 or as an input that is not finite, one of the copies does not do what the
  claim says.
\<close>

theorem pcTone_null_is_good:
  "pcTone JNull = Good \<and> put_call_tone_p0 JNull = Neutral"
  by (simp add: pcTone_def put_call_tone_p0_def round64_0_9)

text \<open>
  C7, as the code has it. On a number both copies agree: the tone is good for a finite
  number below the literal 0.9, warn for a finite number above the literal 1.1, neutral for every other
  finite number, and neutral for NaN and the infinities. The literals are the binary64
  values \<open>8106479329266893 / 2 ^ 53\<close> and \<open>2476979795053773 / 2 ^ 51\<close>. On a value that is
  no number, \<^verbatim>\<open>src/screens/InsightsScreen.tsx\<close> classifies the numeric coercion, so that
  \<^verbatim>\<open>undefined\<close> is neutral, and \<^verbatim>\<open>unnamed/part_000\<close> answers neutral without calling
  \<^verbatim>\<open>pcTone\<close>. The numbers 0.85, 1.15 and 1 give good, warn and neutral, and the numbers 0.9
  and 1.1 give neutral.
\<close>

theorem put_call_tone_thresholds:
  "round64 0.9 = Fin (8106479329266893 / 2 ^ 53)
   \<and> round64 1.1 = Fin (2476979795053773 / 2 ^ 51)
   \<and> pcTone (JNum v) =
       (case v of
          Fin r \<Rightarrow> if r < 8106479329266893 / 2 ^ 53 then Good
                   else if 2476979795053773 / 2 ^ 51 < r then Warn else Neutral
        | PInf \<Rightarrow> Neutral | NInf \<Rightarrow> Neutral | NaN \<Rightarrow> Neutral)
   \<and> put_call_tone_p0 (JNum v) = pcTone (JNum v)
   \<and> pcTone x = pcTone (JNum (Number x))
   \<and> put_call_tone_p0 x = (case x of JNum w \<Rightarrow> pcTone (JNum w) | _ \<Rightarrow> Neutral)
   \<and> pcTone JUndefined = Neutral
   \<and> pcTone (JNum (round64 0.85)) = Good \<and> pcTone (JNum (round64 1.15)) = Warn
   \<and> pcTone (JNum (Fin 1)) = Neutral \<and> pcTone (JNum (round64 0.9)) = Neutral
   \<and> pcTone (JNum (round64 1.1)) = Neutral
   \<and> put_call_tone_p0 (JNum (round64 0.85)) = Good
   \<and> put_call_tone_p0 (JNum (round64 1.15)) = Warn
   \<and> put_call_tone_p0 (JNum (Fin 1)) = Neutral
   \<and> put_call_tone_p0 (JNum (round64 0.9)) = Neutral
   \<and> put_call_tone_p0 (JNum (round64 1.1)) = Neutral"
proof -
  have lits: "round64 0.9 = Fin (8106479329266893 / 2 ^ 53)"
    "round64 1.1 = Fin (2476979795053773 / 2 ^ 51)"
    by (simp_all add: round64_0_9 round64_1_1)
  have ex: "pcTone (JNum (round64 0.85)) = Good" "pcTone (JNum (round64 1.15)) = Warn"
    "pcTone (JNum (Fin 1)) = Neutral" "pcTone (JNum (round64 0.9)) = Neutral"
    "pcTone (JNum (round64 1.1)) = Neutral"
    by (simp_all add: pcTone_number round64_0_85 round64_1_15 round64_0_9 round64_1_1)
  have und: "pcTone JUndefined = Neutral" by (simp add: pcTone_def)
  show ?thesis
    unfolding put_call_tone_p0_number
    using lits pcTone_number [of v] pcTone_coerces [of x] put_call_tone_p0_guard [of x] und ex
    by blast
qed

text \<open>
  Without the guard of its callers, \<^verbatim>\<open>pcTone\<close> of \<^verbatim>\<open>unnamed/part_000\<close> compares the
  infinities like any other number.
\<close>

lemma pcTone_p0_not_finite:
  "pcTone_p0 PInf = Warn \<and> pcTone_p0 NInf = Good \<and> pcTone_p0 NaN = Neutral"
  by (simp add: pcTone_p0_def js_gt_def round64_0_9 round64_1_1)

text \<open>
  For a binary64 value, to be below the literal 0.9 is to be below the decimal 0.9, and to
  be above the literal 1.1 is to be above the decimal 1.1 and not the value of the literal,
  which lies above the decimal and is neutral.
\<close>

lemma below_literal_0_9:
  assumes "round64 r = Fin r"
  shows "(r < 8106479329266893 / 2 ^ 53) = (r < 9 / 10)"
proof
  assume "r < 9 / 10"
  then show "r < 8106479329266893 / 2 ^ 53" by simp
next
  assume lt: "r < 8106479329266893 / 2 ^ 53"
  show "r < 9 / 10"
  proof (rule ccontr)
    assume "\<not> r < 9 / 10"
    then have ge: "9 / 10 \<le> r" by simp
    have "round64 r = Fin (8106479329266893 / 2 ^ 53)"
      using ge lt by (intro round64_eqI [where e = "- 1" and n = 8106479329266893]) simp_all
    with assms lt show False by simp
  qed
qed

lemma above_literal_1_1:
  assumes "round64 r = Fin r"
  shows "(2476979795053773 / 2 ^ 51 < r) = (11 / 10 < r \<and> r \<noteq> 2476979795053773 / 2 ^ 51)"
proof
  assume "2476979795053773 / 2 ^ 51 < r"
  then show "11 / 10 < r \<and> r \<noteq> 2476979795053773 / 2 ^ 51" by simp
next
  assume a: "11 / 10 < r \<and> r \<noteq> 2476979795053773 / 2 ^ 51"
  show "2476979795053773 / 2 ^ 51 < r"
  proof (rule ccontr)
    assume "\<not> 2476979795053773 / 2 ^ 51 < r"
    then have le: "r \<le> 2476979795053773 / 2 ^ 51" by simp
    have "round64 r = Fin (2476979795053773 / 2 ^ 51)"
      using a le by (intro round64_eqI [where e = 0 and n = 4953959590107546]) simp_all
    with assms a show False by simp
  qed
qed

subsection \<open>Bars\<close>

lemma round64_bounded:
  assumes "real_of_int lo \<le> x" "x \<le> real_of_int hi" "\<bar>lo\<bar> < 2 ^ 53" "\<bar>hi\<bar> < 2 ^ 53"
    and "\<bar>x\<bar> \<le> 2 ^ n" "n \<le> 1000"
  shows "\<exists>r. round64 x = Fin r \<and> real_of_int lo \<le> r \<and> r \<le> real_of_int hi
           \<and> \<bar>r - x\<bar> \<le> 2 ^ n / 2 ^ 53"
proof -
  obtain r where r: "round64 x = Fin r" "real_of_int lo \<le> r" "r \<le> real_of_int hi"
    using round64_sandwich [OF assms(1-4)] by blast
  obtain r' where "round64 x = Fin r'" "\<bar>r' - x\<bar> \<le> 2 ^ n / 2 ^ 53"
    using round64_error [OF assms(5,6)] by blast
  with r show ?thesis by auto
qed

lemma Math_max_1:
  assumes "w \<noteq> NaN"
  shows "Math_max (Fin 1) w = PInf \<or> (\<exists>t. Math_max (Fin 1) w = Fin t \<and> 1 \<le> t)"
  using assms by (cases w) (auto simp: Math_max_def)

lemma js_add_not_NaN: "js_add (js_add (Fin x) (Fin y)) (Fin z) \<noteq> NaN"
  using round64_not_NaN [of "x + y"]
  by (cases "round64 (x + y)") (simp_all add: round64_not_NaN)

lemma breadth_total:
  assumes "0 \<le> x" "0 \<le> y" "0 \<le> z"
  shows "Math_max (Fin 1) (js_add (js_add (Fin x) (Fin y)) (Fin z)) = PInf
         \<or> (\<exists>t. Math_max (Fin 1) (js_add (js_add (Fin x) (Fin y)) (Fin z)) = Fin t
               \<and> 1 \<le> t \<and> (x + y) * 100 \<le> (100 + 1 / 2 ^ 44) * t)"
proof (cases "x + y < 1")
  case True
  from Math_max_1 [OF js_add_not_NaN [of x y z]]
  show ?thesis
  proof
    assume "Math_max (Fin 1) (js_add (js_add (Fin x) (Fin y)) (Fin z)) = PInf"
    then show ?thesis by simp
  next
    assume "\<exists>t. Math_max (Fin 1) (js_add (js_add (Fin x) (Fin y)) (Fin z)) = Fin t \<and> 1 \<le> t"
    then obtain t where t: "Math_max (Fin 1) (js_add (js_add (Fin x) (Fin y)) (Fin z)) = Fin t"
      "1 \<le> t" by blast
    have "(x + y) * 100 \<le> 100 * t" using True t(2) by simp
    also have "100 * t \<le> (100 + 1 / 2 ^ 44) * t"
      using t(2) by (intro mult_right_mono) simp_all
    finally have "(x + y) * 100 \<le> (100 + 1 / 2 ^ 44) * t" .
    with t show ?thesis by blast
  qed
next
  case False
  define c :: real where "c = 1 - 1 / 2 ^ 53"
  define k :: real where "k = 100 + 1 / 2 ^ 44"
  have c: "0 \<le> c" "1 / 2 \<le> c" and k: "0 \<le> k" and kc: "100 \<le> k * (c * c)"
    by (simp_all add: c_def k_def)
  have s: "1 \<le> x + y" using False by simp
  then have h1: "1 / 2 \<le> x + y" by simp
  from round64_relative [OF h1]
  show ?thesis
  proof
    assume "round64 (x + y) = PInf"
    then show ?thesis by (simp add: Math_max_def)
  next
    assume "\<exists>r. round64 (x + y) = Fin r \<and> (x + y) * (1 - 1 / 2 ^ 53) \<le> r"
    then obtain r1 where r1: "round64 (x + y) = Fin r1" "(x + y) * c \<le> r1"
      unfolding c_def by blast
    have "1 * c \<le> (x + y) * c" using s c(1) by (rule mult_right_mono)
    then have h2: "1 / 2 \<le> r1 + z" using r1(2) c(2) assms(3) by linarith
    from round64_relative [OF h2]
    show ?thesis
    proof
      assume "round64 (r1 + z) = PInf"
      then show ?thesis by (simp add: r1(1) Math_max_def)
    next
      assume "\<exists>r. round64 (r1 + z) = Fin r \<and> (r1 + z) * (1 - 1 / 2 ^ 53) \<le> r"
      then obtain r2 where r2: "round64 (r1 + z) = Fin r2" "(r1 + z) * c \<le> r2"
        unfolding c_def by blast
      have "(x + y) * c * c \<le> r1 * c" using r1(2) c(1) by (rule mult_right_mono)
      moreover have "r1 * c \<le> (r1 + z) * c"
        using assms(3) c(1) by (intro mult_right_mono) simp_all
      ultimately have low: "(x + y) * (c * c) \<le> max 1 r2"
        using r2(2) by (simp add: mult.assoc)
      have "(x + y) * 100 \<le> (x + y) * (k * (c * c))"
        using kc s by (intro mult_left_mono) simp_all
      also have "\<dots> = k * ((x + y) * (c * c))" by simp
      also have "\<dots> \<le> k * max 1 r2" using low k by (rule mult_left_mono)
      finally have "(x + y) * 100 \<le> (100 + 1 / 2 ^ 44) * max 1 r2"
        unfolding k_def .
      moreover have "Math_max (Fin 1) (js_add (js_add (Fin x) (Fin y)) (Fin z)) = Fin (max 1 r2)"
        by (simp add: r1(1) r2(1) Math_max_Fin)
      moreover have "1 \<le> max 1 r2" by simp
      ultimately show ?thesis by blast
    qed
  qed
qed

lemma breadth_share:
  assumes "0 \<le> x" "1 \<le> t" "x \<le> 2 * t"
  shows "\<exists>a. js_mul (js_div (Fin x) (Fin t)) (Fin 100) = Fin a \<and> 0 \<le> a \<and> a \<le> 200
           \<and> \<bar>a - x / t * 100\<bar> \<le> 1 / 2 ^ 44"
proof -
  define p where "p = x / t"
  have p: "0 \<le> p" "p \<le> 2"
    using assms by (simp_all add: p_def pos_divide_le_eq)
  then have b: "real_of_int 0 \<le> p" "p \<le> real_of_int 2" "\<bar>p\<bar> \<le> 2 ^ 1"
    by simp_all
  obtain a0 where a0: "round64 p = Fin a0" "0 \<le> a0" "a0 \<le> 2" "\<bar>a0 - p\<bar> \<le> 2 ^ 1 / 2 ^ 53"
    using round64_bounded [OF b(1,2) _ _ b(3)] by auto
  have b2: "real_of_int 0 \<le> a0 * 100" "a0 * 100 \<le> real_of_int 200" "\<bar>a0 * 100\<bar> \<le> 2 ^ 8"
    using a0(2,3) by simp_all
  obtain a where a: "round64 (a0 * 100) = Fin a" "0 \<le> a" "a \<le> 200"
    "\<bar>a - a0 * 100\<bar> \<le> 2 ^ 8 / 2 ^ 53"
    using round64_bounded [OF b2(1,2) _ _ b2(3)] by auto
  have "\<bar>a - p * 100\<bar> \<le> 2 ^ 8 / 2 ^ 53 + 100 * (2 ^ 1 / 2 ^ 53)"
    using a(4) a0(4) by linarith
  then have "\<bar>a - p * 100\<bar> \<le> 1 / 2 ^ 44" by simp
  moreover have "js_mul (js_div (Fin x) (Fin t)) (Fin 100) = Fin a"
    using assms(2) a0(1) a(1) by (simp add: p_def)
  ultimately show ?thesis using a(2,3) unfolding p_def by blast
qed

lemma breadth_remainder:
  assumes "0 \<le> a" "a \<le> 200" "0 \<le> d" "d \<le> 200"
  shows "\<exists>t1 t2. js_sub (Fin 100) (Fin a) = Fin t1 \<and> js_sub (Fin t1) (Fin d) = Fin t2
           \<and> \<bar>t1 - (100 - a)\<bar> \<le> 1 / 2 ^ 46 \<and> \<bar>t2 - (t1 - d)\<bar> \<le> 1 / 2 ^ 44
           \<and> (t2 < 0 \<longrightarrow> t1 < d)"
proof -
  have b: "real_of_int (- 100) \<le> 100 - a" "100 - a \<le> real_of_int 100" "\<bar>100 - a\<bar> \<le> 2 ^ 7"
    using assms(1,2) by simp_all
  obtain t1 where t1: "round64 (100 - a) = Fin t1" "- 100 \<le> t1" "t1 \<le> 100"
    "\<bar>t1 - (100 - a)\<bar> \<le> 2 ^ 7 / 2 ^ 53"
    using round64_bounded [OF b(1,2) _ _ b(3)] by auto
  have b2: "real_of_int (- 300) \<le> t1 - d" "t1 - d \<le> real_of_int 100" "\<bar>t1 - d\<bar> \<le> 2 ^ 9"
    using t1(2,3) assms(3,4) by simp_all
  obtain t2 where t2: "round64 (t1 - d) = Fin t2" "\<bar>t2 - (t1 - d)\<bar> \<le> 2 ^ 9 / 2 ^ 53"
    using round64_bounded [OF b2(1,2) _ _ b2(3)] by auto
  have neg: "t1 < d" if "t2 < 0"
  proof (rule ccontr)
    assume "\<not> t1 < d"
    then have "real_of_int 0 \<le> t1 - d" by simp
    from round64_sandwich [OF this b2(2)] t2(1) have "0 \<le> t2" by auto
    with that show False by simp
  qed
  have "js_sub (Fin 100) (Fin a) = Fin t1" "js_sub (Fin t1) (Fin d) = Fin t2"
    by (simp_all add: js_sub_def t1(1) t2(1))
  moreover have "\<bar>t1 - (100 - a)\<bar> \<le> 1 / 2 ^ 46" using t1(4) by simp
  moreover have "\<bar>t2 - (t1 - d)\<bar> \<le> 1 / 2 ^ 44" using t2(2) by simp
  ultimately show ?thesis using neg by blast
qed

lemma breadth_parts:
  assumes "0 \<le> x" "0 \<le> y" "0 \<le> z"
  shows "\<exists>a d t1 t2.
           BreadthBar (Fin x) (Fin y) (Fin z) = (Fin a, Fin (max 0 t2), Fin d)
           \<and> BreadthBar_p0 (Fin x) (Fin y) (Fin z) = (Fin a, Fin t2, Fin d)
           \<and> 0 \<le> a \<and> 0 \<le> d \<and> a + d \<le> 100 + 3 / 2 ^ 44
           \<and> js_sub (js_sub (Fin 100) (Fin a)) (Fin d) = Fin t2
           \<and> \<bar>t1 - (100 - a)\<bar> \<le> 1 / 2 ^ 46 \<and> \<bar>t2 - (t1 - d)\<bar> \<le> 1 / 2 ^ 44
           \<and> (t2 < 0 \<longrightarrow> t1 < d)"
proof -
  have "\<exists>a d. js_mul (js_div (Fin x)
                  (Math_max (Fin 1) (js_add (js_add (Fin x) (Fin y)) (Fin z)))) (Fin 100) = Fin a
          \<and> js_mul (js_div (Fin y)
                  (Math_max (Fin 1) (js_add (js_add (Fin x) (Fin y)) (Fin z)))) (Fin 100) = Fin d
          \<and> 0 \<le> a \<and> a \<le> 200 \<and> 0 \<le> d \<and> d \<le> 200 \<and> a + d \<le> 100 + 3 / 2 ^ 44"
    using breadth_total [OF assms]
  proof
    assume "Math_max (Fin 1) (js_add (js_add (Fin x) (Fin y)) (Fin z)) = PInf"
    then show ?thesis by (simp add: round64_0)
  next
    assume "\<exists>t. Math_max (Fin 1) (js_add (js_add (Fin x) (Fin y)) (Fin z)) = Fin t
               \<and> 1 \<le> t \<and> (x + y) * 100 \<le> (100 + 1 / 2 ^ 44) * t"
    then obtain t where t: "Math_max (Fin 1) (js_add (js_add (Fin x) (Fin y)) (Fin z)) = Fin t"
      "1 \<le> t" "(x + y) * 100 \<le> (100 + 1 / 2 ^ 44) * t" by blast
    have "(100 + 1 / 2 ^ 44) * t \<le> 200 * t"
      using t(2) by (intro mult_right_mono) simp_all
    with t(3) have "(x + y) * 100 \<le> 200 * t" by (rule order_trans)
    then have "x + y \<le> 2 * t" by simp
    then have le: "x \<le> 2 * t" "y \<le> 2 * t" using assms by linarith+
    obtain a where a: "js_mul (js_div (Fin x) (Fin t)) (Fin 100) = Fin a" "0 \<le> a" "a \<le> 200"
      "\<bar>a - x / t * 100\<bar> \<le> 1 / 2 ^ 44"
      using breadth_share [OF assms(1) t(2) le(1)] by blast
    obtain d where d: "js_mul (js_div (Fin y) (Fin t)) (Fin 100) = Fin d" "0 \<le> d" "d \<le> 200"
      "\<bar>d - y / t * 100\<bar> \<le> 1 / 2 ^ 44"
      using breadth_share [OF assms(2) t(2) le(2)] by blast
    have "x / t * 100 + y / t * 100 = (x + y) * 100 / t"
      by (simp add: add_divide_distrib distrib_right)
    also have "\<dots> \<le> 100 + 1 / 2 ^ 44"
      using t(2,3) by (simp add: pos_divide_le_eq)
    finally have "x / t * 100 + y / t * 100 \<le> 100 + 1 / 2 ^ 44" .
    moreover have "a + d \<le> 100 + (e + e + e)"
      if "p + q \<le> 100 + e" "\<bar>a - p\<bar> \<le> e" "\<bar>d - q\<bar> \<le> e" for p q e :: real
      using that by linarith
    ultimately have "a + d \<le> 100 + (1 / 2 ^ 44 + 1 / 2 ^ 44 + 1 / 2 ^ 44)"
      using a(4) d(4) by blast
    then have "a + d \<le> 100 + 3 / 2 ^ 44" by simp
    then show ?thesis
      unfolding t(1) using a(1,2,3) d(1,2,3) by blast
  qed
  then obtain a d where ad:
    "js_mul (js_div (Fin x)
       (Math_max (Fin 1) (js_add (js_add (Fin x) (Fin y)) (Fin z)))) (Fin 100) = Fin a"
    "js_mul (js_div (Fin y)
       (Math_max (Fin 1) (js_add (js_add (Fin x) (Fin y)) (Fin z)))) (Fin 100) = Fin d"
    "0 \<le> a" "a \<le> 200" "0 \<le> d" "d \<le> 200" "a + d \<le> 100 + 3 / 2 ^ 44"
    by blast
  obtain t1 t2 where r: "js_sub (Fin 100) (Fin a) = Fin t1" "js_sub (Fin t1) (Fin d) = Fin t2"
    "\<bar>t1 - (100 - a)\<bar> \<le> 1 / 2 ^ 46" "\<bar>t2 - (t1 - d)\<bar> \<le> 1 / 2 ^ 44" "t2 < 0 \<longrightarrow> t1 < d"
    using breadth_remainder [OF ad(3,4,5,6)] by blast
  have u: "js_sub (js_sub (Fin 100) (Fin a)) (Fin d) = Fin t2"
    unfolding r(1) r(2) ..
  have "BreadthBar (Fin x) (Fin y) (Fin z) = (Fin a, Fin (max 0 t2), Fin d)"
    unfolding BreadthBar_def Let_def ad(1,2) u by (simp add: Math_max_Fin)
  moreover have "BreadthBar_p0 (Fin x) (Fin y) (Fin z) = (Fin a, Fin t2, Fin d)"
    unfolding BreadthBar_p0_def Let_def ad(1,2) u by simp
  ultimately show ?thesis
    using ad(3,5,7) u r(3,4,5) by blast
qed

lemma round64_sum_a: "round64 (2345624805922133 / 562949953421312) = Fin (2345624805922133 / 562949953421312)"
  by (rule round64_eqI [where e = "2" and n = "4691249611844266"]) simp_all

lemma round64_sum_a_d: "round64 (56294995342131205 / 562949953421312) = Fin (7036874417766401 / 70368744177664)"
  by (rule round64_eqI [where e = "6" and n = "7036874417766401"]) simp_all

text \<open>
  C4, as it is stated, fails in binary64. For 1 advancer, 23 decliners and 0 unchanged the
  two shares are the numbers \<open>4.166666666666666\<close> and \<open>95.83333333333334\<close>, and the remainder
  is negative: the middle segment is 0 in \<^verbatim>\<open>src/screens/InsightsScreen.tsx\<close> and
  \<open>- 1 / 2 ^ 46\<close> in \<^verbatim>\<open>unnamed/part_000\<close>, and the three percentages sum to
  \<open>100 + 5 / 2 ^ 49\<close> in the first copy and to \<open>100 - 3 / 2 ^ 49\<close> in the second. Added in
  binary64, those of the first copy give \<open>100.00000000000001\<close>.
\<close>

theorem breadth_segments_sum_not_100:
  "BreadthBar (Fin 1) (Fin 23) (Fin 0)
     = (Fin (2345624805922133 / 2 ^ 49), Fin 0, Fin (3371835658513067 / 2 ^ 45))
   \<and> BreadthBar_p0 (Fin 1) (Fin 23) (Fin 0)
     = (Fin (2345624805922133 / 2 ^ 49), Fin (- (1 / 2 ^ 46)), Fin (3371835658513067 / 2 ^ 45))
   \<and> (2345624805922133 / 2 ^ 49 + 0 + 3371835658513067 / 2 ^ 45 :: real) = 100 + 5 / 2 ^ 49
   \<and> (2345624805922133 / 2 ^ 49 + - (1 / 2 ^ 46) + 3371835658513067 / 2 ^ 45 :: real)
       = 100 - 3 / 2 ^ 49
   \<and> sum3 (BreadthBar (Fin 1) (Fin 23) (Fin 0)) = Fin (100 + 1 / 2 ^ 46)"
proof -
  have a: "BreadthBar (Fin 1) (Fin 23) (Fin 0)
     = (Fin (2345624805922133 / 2 ^ 49), Fin 0, Fin (3371835658513067 / 2 ^ 45))"
    by (simp add: BreadthBar_def Math_max_Fin js_sub_def round64_numeral round64_1_24
          round64_23_24 round64_1_24_x100 round64_23_24_x100 round64_100_minus_a
          round64_t1_minus_d)
  have b: "BreadthBar_p0 (Fin 1) (Fin 23) (Fin 0)
     = (Fin (2345624805922133 / 2 ^ 49), Fin (- (1 / 2 ^ 46)), Fin (3371835658513067 / 2 ^ 45))"
    by (simp add: BreadthBar_p0_def Math_max_Fin js_sub_def round64_numeral round64_1_24
          round64_23_24 round64_1_24_x100 round64_23_24_x100 round64_100_minus_a
          round64_t1_minus_d)
  have c: "(2345624805922133 / 2 ^ 49 + 0 + 3371835658513067 / 2 ^ 45 :: real) = 100 + 5 / 2 ^ 49"
    "(2345624805922133 / 2 ^ 49 + - (1 / 2 ^ 46) + 3371835658513067 / 2 ^ 45 :: real)
       = 100 - 3 / 2 ^ 49"
    by simp_all
  have d: "sum3 (BreadthBar (Fin 1) (Fin 23) (Fin 0)) = Fin (100 + 1 / 2 ^ 46)"
    unfolding a by (simp add: sum3_def round64_sum_a round64_sum_a_d)
  show ?thesis using a b c d by blast
qed

text \<open>
  C4, as the code has it. For every triple of non-negative finite counts, both copies of
  the breadth bar return three finite percentages, with the same outer ones; the middle one is the
  remainder \<^verbatim>\<open>100 - a - d\<close> computed in binary64, floored at 0 in
  \<^verbatim>\<open>src/screens/InsightsScreen.tsx\<close> and taken as it is in \<^verbatim>\<open>unnamed/part_000\<close>, and the
  three sum to 100 within \<open>1 / 2 ^ 42\<close>. The counts 120, 80 and 0 give exactly 60, 0
  and 40.
\<close>

theorem breadth_segments_sum_near_100:
  assumes "0 \<le> x" "0 \<le> y" "0 \<le> z"
  shows "(\<exists>a u d. BreadthBar (Fin x) (Fin y) (Fin z) = (Fin a, Fin (max 0 u), Fin d)
            \<and> BreadthBar_p0 (Fin x) (Fin y) (Fin z) = (Fin a, Fin u, Fin d)
            \<and> js_sub (js_sub (Fin 100) (Fin a)) (Fin d) = Fin u
            \<and> 0 \<le> a \<and> 0 \<le> d
            \<and> \<bar>a + max 0 u + d - 100\<bar> \<le> 1 / 2 ^ 42
            \<and> \<bar>a + u + d - 100\<bar> \<le> 1 / 2 ^ 42)
         \<and> BreadthBar (Fin 120) (Fin 80) (Fin 0) = (Fin 60, Fin 0, Fin 40)
         \<and> BreadthBar_p0 (Fin 120) (Fin 80) (Fin 0) = (Fin 60, Fin 0, Fin 40)"
proof -
  obtain a d t1 t2 where p:
    "BreadthBar (Fin x) (Fin y) (Fin z) = (Fin a, Fin (max 0 t2), Fin d)"
    "BreadthBar_p0 (Fin x) (Fin y) (Fin z) = (Fin a, Fin t2, Fin d)"
    "0 \<le> a" "0 \<le> d" "a + d \<le> 100 + 3 / 2 ^ 44"
    "js_sub (js_sub (Fin 100) (Fin a)) (Fin d) = Fin t2"
    "\<bar>t1 - (100 - a)\<bar> \<le> 1 / 2 ^ 46" "\<bar>t2 - (t1 - d)\<bar> \<le> 1 / 2 ^ 44"
    "t2 < 0 \<longrightarrow> t1 < d"
    using breadth_parts [OF assms] by blast
  have small: "(1 / 2 ^ 46 + 1 / 2 ^ 44 :: real) \<le> 1 / 2 ^ 42" "(3 / 2 ^ 44 :: real) \<le> 1 / 2 ^ 42"
    "(0 :: real) \<le> 1 / 2 ^ 46" "(1 / 2 ^ 46 :: real) \<le> 1 / 2 ^ 42"
    by simp_all
  have "\<bar>a + t2 + d - 100\<bar> \<le> e + e'"
    if "\<bar>t1 - (100 - a)\<bar> \<le> e" "\<bar>t2 - (t1 - d)\<bar> \<le> e'" for e e' :: real
    using that by linarith
  then have "\<bar>a + t2 + d - 100\<bar> \<le> 1 / 2 ^ 46 + 1 / 2 ^ 44"
    using p(7,8) by blast
  then have e1: "\<bar>a + t2 + d - 100\<bar> \<le> 1 / 2 ^ 42"
    using small(1) by (rule order_trans)
  have e2: "\<bar>a + max 0 t2 + d - 100\<bar> \<le> 1 / 2 ^ 42"
  proof (cases "t2 < 0")
    case True
    then have "t1 < d" using p(9) by simp
    moreover have "\<bar>a + d - 100\<bar> \<le> b"
      if "t1 < d" "\<bar>t1 - (100 - a)\<bar> \<le> e" "a + d \<le> 100 + e'" "e \<le> b" "e' \<le> b"
      for e e' b :: real
      using that by linarith
    ultimately have "\<bar>a + d - 100\<bar> \<le> 1 / 2 ^ 42"
      using p(5,7) small(2,4) by blast
    then show ?thesis using True by (simp add: max_def)
  next
    case False
    then show ?thesis using e1 by (simp add: max_def)
  qed
  have s1: "BreadthBar (Fin 120) (Fin 80) (Fin 0) = (Fin 60, Fin 0, Fin 40)"
    by (simp add: BreadthBar_def Math_max_Fin js_sub_def round64_numeral round64_3_5
          round64_2_5 round64_3_5_x100 round64_2_5_x100 round64_0)
  have s2: "BreadthBar_p0 (Fin 120) (Fin 80) (Fin 0) = (Fin 60, Fin 0, Fin 40)"
    by (simp add: BreadthBar_p0_def Math_max_Fin js_sub_def round64_numeral round64_3_5
          round64_2_5 round64_3_5_x100 round64_2_5_x100 round64_0)
  show ?thesis
    using p(1,2,3,4,6) e1 e2 s1 s2 by blast
qed

theorem breadth_segments_sum_near_100_witness:
  "(0::real) \<le> 1 \<and> (0::real) \<le> 23 \<and> (0::real) \<le> 0
   \<and> (\<exists>a u d. BreadthBar (Fin 1) (Fin 23) (Fin 0) = (Fin a, Fin (max 0 u), Fin d)
         \<and> BreadthBar_p0 (Fin 1) (Fin 23) (Fin 0) = (Fin a, Fin u, Fin d)
         \<and> \<bar>a + max 0 u + d - 100\<bar> \<le> 1 / 2 ^ 42
         \<and> \<bar>a + u + d - 100\<bar> \<le> 1 / 2 ^ 42)"
proof -
  have h: "(0::real) \<le> 1" "(0::real) \<le> 23" "(0::real) \<le> 0" by simp_all
  from breadth_segments_sum_near_100 [OF h]
  show ?thesis using h by blast
qed

lemma num_finite: "\<exists>r. num x = Fin r"
  by (cases "Number x") (simp_all add: num_def)

lemma clamp_0_100:
  assumes "w \<noteq> NaN"
  shows "\<exists>p. Math_max (Fin 0) (Math_min (Fin 100) w) = Fin p \<and> 0 \<le> p \<and> p \<le> 100"
  using assms by (cases w) (auto simp: Math_max_def Math_min_def)

lemma js_mul_100_not_NaN: "w \<noteq> NaN \<Longrightarrow> js_mul w (Fin 100) \<noteq> NaN"
  by (cases w) (simp_all add: round64_not_NaN signed_inf_def)

lemma volume_divisor:
  "Math_max (Fin 1) (js_or (Fin c) (js_add (Fin a) (Fin b))) = PInf
   \<or> (\<exists>t. Math_max (Fin 1) (js_or (Fin c) (js_add (Fin a) (Fin b))) = Fin t \<and> 1 \<le> t)"
proof -
  have "js_or (Fin c) (js_add (Fin a) (Fin b)) \<noteq> NaN"
    by (simp add: js_or_def round64_not_NaN)
  then show ?thesis by (rule Math_max_1)
qed

lemma js_div_not_NaN:
  "d = PInf \<or> (\<exists>t. d = Fin t \<and> 1 \<le> t) \<Longrightarrow> js_div (Fin a) d \<noteq> NaN"
  by (auto simp: round64_not_NaN)

lemma VolumeBar_in_range:
  "\<exists>p q. VolumeBar (num x) (num y) (num z) = (Fin p, Fin q)
      \<and> 0 \<le> p \<and> p \<le> 100 \<and> 0 \<le> q \<and> q \<le> 100"
proof -
  obtain a b c where n: "num x = Fin a" "num y = Fin b" "num z = Fin c"
    using num_finite by blast
  define t where "t = Math_max (Fin 1) (js_or (Fin c) (js_add (Fin a) (Fin b)))"
  have t: "t = PInf \<or> (\<exists>r. t = Fin r \<and> 1 \<le> r)"
    unfolding t_def by (rule volume_divisor)
  have "js_mul (js_div (Fin a) t) (Fin 100) \<noteq> NaN" "js_mul (js_div (Fin b) t) (Fin 100) \<noteq> NaN"
    using t by (simp_all add: js_mul_100_not_NaN js_div_not_NaN)
  from clamp_0_100 [OF this(1)] clamp_0_100 [OF this(2)]
  show ?thesis
    unfolding n VolumeBar_def Let_def t_def [symmetric] by auto
qed

lemma VolumeBar_sums:
  "VolumeBar (Fin 150) (Fin 50) (Fin 100) = (Fin 100, Fin 50)
   \<and> VolumeBar (Fin 10) (Fin 20) (Fin 100) = (Fin 10, Fin 20)
   \<and> VolumeBar (Fin 30) (Fin 70) (Fin 0) = (Fin 30, Fin 70)"
  by (simp add: VolumeBar_def Math_max_Fin Math_min_Fin js_or_def round64_numeral
        round64_3_2 round64_1_2 round64_1_10 round64_1_5 round64_3_10 round64_7_10
        round64_1_10_x100 round64_1_5_x100 round64_3_10_x100 round64_7_10_x100)

text \<open>
  C5. The two percentages of the volume bar are each clamped into the interval from 0 to
  100 in \<^verbatim>\<open>src/screens/InsightsScreen.tsx\<close> (\<open>VolumeBar_in_range\<close>, with sums below, above
  and equal to 100 in \<open>VolumeBar_sums\<close>), but \<^verbatim>\<open>VolumeBar\<close> of \<^verbatim>\<open>unnamed/part_000\<close> does not
  clamp them: for up 150, down 50 and total 100 its first segment is 150 percent, where
  the other copy gives 100.
\<close>

theorem VolumeBar_p0_not_clamped:
  "VolumeBar_p0 (Fin 150) (Fin 50) (Fin 100) = (Fin 150, Fin 50)
   \<and> VolumeBar (Fin 150) (Fin 50) (Fin 100) = (Fin 100, Fin 50)"
  by (simp add: VolumeBar_def VolumeBar_p0_def Math_max_Fin Math_min_Fin js_or_def
        round64_numeral round64_3_2 round64_1_2)

subsection \<open>Loading\<close>

lemma Promise_all_fulfils_iff:
  "(\<exists>v. Promise_all p1 p2 p3 = Inr v) \<longleftrightarrow>
     (\<exists>a b c. snd p1 = Fulfilled a \<and> snd p2 = Fulfilled b \<and> snd p3 = Fulfilled c)"
  by (cases "(p1, p2, p3)" rule: Promise_all.cases) simp_all

lemma Promise_all_rejects:
  "snd p1 = Rejected e1 \<or> snd p2 = Rejected e2 \<or> snd p3 = Rejected e3 \<Longrightarrow>
     \<exists>e. Promise_all p1 p2 p3 = Inl e"
  by (cases "(p1, p2, p3)" rule: Promise_all.cases) auto

lemma load_p0_error_clears:
  assumes "Promise_all p1 p2 p3 = Inl e"
  shows "load_p0 st p1 p2 p3 =
           \<lparr>summary = None, sentiment = None, patterns = None, loading = False,
            err = Some (case message e of Some m \<Rightarrow> m | None \<Rightarrow> lit ''Failed to load insights'')\<rparr>"
  using assms by (simp add: load_p0_def)

lemma load_error_keeps:
  assumes "Promise_all p1 p2 p3 = Inl e"
  shows "load st p1 p2 p3 =
           \<lparr>summary = summary st, sentiment = sentiment st, patterns = patterns st,
            loading = False,
            err = Some (case message e of Some m \<Rightarrow> m | None \<Rightarrow> lit ''Failed to load insights'')\<rparr>"
  using assms by (simp add: load_def)

text \<open>
  C1. When one of the three fetches fails, \<^verbatim>\<open>Promise.all\<close> rejects
  (\<open>Promise_all_rejects\<close>) and \<^verbatim>\<open>load\<close> of \<^verbatim>\<open>unnamed/part_000\<close> stores the message and sets the
  three results to null (\<open>load_p0_error_clears\<close>). \<^verbatim>\<open>load\<close> of
  \<^verbatim>\<open>src/screens/InsightsScreen.tsx\<close> only stores the message: results fetched earlier stay
  in the state next to the error, as for the state and the failing summary request below.
\<close>

theorem load_error_leaves_stale_results:
  "load \<lparr>summary = Some (1::nat), sentiment = Some (2::nat), patterns = Some (3::nat),
          loading = False, err = None\<rparr>
        (5, Rejected (Error (lit ''Request timed out'')))
        (1, Fulfilled (Some 7)) (2, Fulfilled (Some 8))
     = \<lparr>summary = Some 1, sentiment = Some 2, patterns = Some 3, loading = False,
        err = Some (lit ''Request timed out'')\<rparr>
   \<and> load_p0 \<lparr>summary = Some (1::nat), sentiment = Some (2::nat), patterns = Some (3::nat),
          loading = False, err = None\<rparr>
        (5, Rejected (Error (lit ''Request timed out'')))
        (1, Fulfilled (Some 7)) (2, Fulfilled (Some 8))
     = \<lparr>summary = None, sentiment = None, patterns = None, loading = False,
        err = Some (lit ''Request timed out'')\<rparr>"
  by (simp add: load_def load_p0_def Error_def)

subsection \<open>The request wrapper\<close>

lemma foldr_max_upper: "x \<in> set xs \<Longrightarrow> x \<le> foldr max xs (0::nat)"
  by (induction xs) auto

lemma setTimeout_fresh: "fst (setTimeout pending) \<notin> set pending"
proof
  assume "fst (setTimeout pending) \<in> set pending"
  then have "Suc (foldr max pending 0) \<le> foldr max pending 0"
    using foldr_max_upper [of "Suc (foldr max pending 0)" pending]
    by (simp add: setTimeout_def Let_def)
  then show False by simp
qed

lemma clear_after_set:
  "clearTimeout (fst (setTimeout pending)) (snd (setTimeout pending)) = pending"
proof -
  have "snd (setTimeout pending) = fst (setTimeout pending) # pending"
    by (simp add: setTimeout_def Let_def)
  then show ?thesis
    using setTimeout_fresh [of pending] by (simp add: clearTimeout_def removeAll_id)
qed

lemma Error_not_abort: "name (Error m) \<noteq> Some (lit ''AbortError'')"
  by (simp add: Error_def lit_def)

text \<open>
  C6, as the code has it. A request whose \<^verbatim>\<open>fetch\<close>, or whose reading of the JSON body of a
  2xx response, is rejected by the abort of the timeout fails with exactly the message
  \<^verbatim>\<open>Request timed out\<close>. A response that is not 2xx fails with \<^verbatim>\<open>HTTP\<close>, the status in
  decimal, \<^verbatim>\<open>on\<close> and the path with its query, followed by a dash and the first 180 code
  units of the body when the body could be read and is not empty; a failure to read that
  body, an abort included, is swallowed. Every other rejection is thrown again unchanged.
  On every path the timer is cleared: the pending timers are those from before the call.
\<close>

theorem request_outcomes:
  "fst (request u fetch pending) =
     (case fetch of
        Refused e \<Rightarrow>
          if name e = Some (lit ''AbortError'') then Inl (Error (lit ''Request timed out''))
          else Inl e
      | Responded res \<Rightarrow>
          if ok res then
            (case json_result res of
               Inl e \<Rightarrow>
                 if name e = Some (lit ''AbortError'')
                 then Inl (Error (lit ''Request timed out''))
                 else Inl e
             | Inr v \<Rightarrow> Inr v)
          else Inl (Error (lit ''HTTP '' @ dec (status res) @ lit '' on ''
                           @ pathname u @ search u
                           @ (case text_result res of
                                Inl e \<Rightarrow> []
                              | Inr b \<Rightarrow> if b = [] then []
                                         else [0x20, 0x2014, 0x20] @ take 180 b))))
   \<and> snd (request u fetch pending) = pending
   \<and> fst (setTimeout pending) \<notin> set pending"
proof -
  have timers: "snd (request u fetch pending) = pending"
    using clear_after_set [of pending]
    by (simp add: request_def Let_def split_beta)
  have outcome: "fst (request u fetch pending) =
     (case fetch of
        Refused e \<Rightarrow>
          if name e = Some (lit ''AbortError'') then Inl (Error (lit ''Request timed out''))
          else Inl e
      | Responded res \<Rightarrow>
          if ok res then
            (case json_result res of
               Inl e \<Rightarrow>
                 if name e = Some (lit ''AbortError'')
                 then Inl (Error (lit ''Request timed out''))
                 else Inl e
             | Inr v \<Rightarrow> Inr v)
          else Inl (Error (lit ''HTTP '' @ dec (status res) @ lit '' on ''
                           @ pathname u @ search u
                           @ (case text_result res of
                                Inl e \<Rightarrow> []
                              | Inr b \<Rightarrow> if b = [] then []
                                         else [0x20, 0x2014, 0x20] @ take 180 b))))"
  proof (cases fetch)
    case (Refused e)
    then show ?thesis
      by (simp add: request_def Let_def split_beta)
  next
    case (Responded res)
    show ?thesis
    proof (cases "ok res")
      case True
      with Responded show ?thesis
        by (simp add: request_def Let_def split_beta split: sum.splits)
    next
      case False
      with Responded show ?thesis
        by (simp add: request_def Let_def split_beta Error_not_abort split: sum.splits)
    qed
  qed
  show ?thesis
    using outcome timers setTimeout_fresh by blast
qed

text \<open>
  C6, as it is stated, fails when the timeout aborts the request while the body of a
  response with status 500 is read: the failure is swallowed and the error is the one of
  the status, without a body, not \<^verbatim>\<open>Request timed out\<close>.
\<close>

theorem request_abort_while_reading_error_body:
  "fst (request \<lparr>pathname = lit ''/api/insights/summary'', search = lit ''?tf=daily''\<rparr>
         (Responded \<lparr>status = 500,
                      text_result = Inl \<lparr>name = Some (lit ''AbortError''),
                                         message = Some (lit ''Aborted'')\<rparr>,
                      json_result = (Inl \<lparr>name = Some (lit ''AbortError''),
                                         message = Some (lit ''Aborted'')\<rparr> :: thrown + unit)\<rparr>)
         [])
     = Inl (Error (lit ''HTTP 500 on /api/insights/summary?tf=daily''))
   \<and> message (Error (lit ''HTTP 500 on /api/insights/summary?tf=daily''))
       \<noteq> Some (lit ''Request timed out'')"
  by (simp add: request_def setTimeout_def ok_def Error_def dec_def digits10.simps
        digit_char_def lit_def)

subsection \<open>The News statistic\<close>

lemma toFixed_abs_two:
  "\<exists>val. toFixed sd (Fin \<bar>v\<bar>) 2 = Inr val \<and> val \<noteq> [] \<and> is_digit 10 (hd val)"
proof -
  have nm: "\<not> is_digit 10 0x2D" by (simp add: is_digit_def digit_of_def)
  have big: "Number_toString sd (Fin \<bar>v\<bar>) \<noteq> [] \<and> is_digit 10 (hd (Number_toString sd (Fin \<bar>v\<bar>)))"
    using positive_toString_hd [of sd "\<bar>v\<bar>"] by (simp add: lit_def is_digit_zero)
  show ?thesis
    using big fixed_digits_hd [of "\<bar>v\<bar>" 2]
    by (cases "10 ^ 21 \<le> \<bar>v\<bar>") (simp_all add: toFixed_def Let_def)
qed

lemma fixed_digits_035: "fixed_digits 0.35 2 = lit ''0.35''"
  by code_simp
lemma fixed_digits_000: "fixed_digits 0 2 = lit ''0.00''"
  by code_simp
lemma toFixed_035: "toFixed sd (Fin 0.35) 2 = Inr (lit ''0.35'')"
  using fixed_digits_035 by (simp add: toFixed_def)
lemma toFixed_000: "toFixed sd (Fin 0) 2 = Inr (lit ''0.00'')"
  using fixed_digits_000 by (simp add: toFixed_def)

lemma round64_7_20: "round64 (7 / 20) = Fin (3152519739159347 / 9007199254740992)"
  by (rule round64_eqI [where e = "- 2" and n = "6305039478318694"]) simp_all

lemma Number_minus_035:
  "Number (JStr (lit ''-0.35'')) = Fin (- (3152519739159347 / 2 ^ 53))"
  by (simp add: StringToNumber_def trim_def is_ws_def radix_of_def unsigned_decimal_def lit_def
        is_digit_def digit_of_def digits_value_def exponent_of_def scale10_def Let_def round64_7_20)

text \<open>
  C10. For a score that coerces to a finite number \<open>v\<close>, the News text is the prefix
  \<^verbatim>\<open>+\<close> when \<open>v\<close> is positive and no prefix otherwise, then \<^verbatim>\<open>toFixed(2)\<close> of the absolute
  value of \<open>v\<close>, which starts with a digit, then the sample in parentheses, in both copies
  of the screen. A negative score therefore shows no minus sign: the score \<open>-0.35\<close> reads
  \<^verbatim>\<open>0.35\<close>, with the empty prefix of the score 0, and differs from the text of \<open>0.35\<close> by
  the missing \<^verbatim>\<open>+\<close> only.
\<close>

theorem news_text_sign_and_magnitude:
  assumes "Number (score n) = Fin v"
  shows "(\<exists>val. toFixed sd (Fin \<bar>v\<bar>) 2 = Inr val \<and> val \<noteq> [] \<and> is_digit 10 (hd val)
           \<and> newsString sd (Some n) =
               Inr ((if 0 < v then lit ''+'' else []) @ val @ lit '' (''
                    @ (if Number_isFinite (Number (sample n)) then String_js sd (sample n)
                       else em_dash)
                    @ lit '')'')
           \<and> news_value_p0 sd (Some n) =
               Inr ((if 0 < v then lit ''+'' else []) @ val @ lit '' (''
                    @ String_js sd (sample n) @ lit '')''))
         \<and> newsString sd (Some \<lparr>score = JNum (Fin (- 0.35)), sample = JNum (Fin 12)\<rparr>)
             = Inr (lit ''0.35 ('' @ Number_toString sd (Fin 12) @ lit '')'')
         \<and> newsString sd (Some \<lparr>score = JNum (Fin 0.35), sample = JNum (Fin 12)\<rparr>)
             = Inr (lit ''+0.35 ('' @ Number_toString sd (Fin 12) @ lit '')'')
         \<and> newsString sd (Some \<lparr>score = JNum (Fin 0), sample = JNum (Fin 12)\<rparr>)
             = Inr (lit ''0.00 ('' @ Number_toString sd (Fin 12) @ lit '')'')
         \<and> news_value_p0 sd (Some \<lparr>score = JNum (Fin (- 0.35)), sample = JNum (Fin 12)\<rparr>)
             = Inr (lit ''0.35 ('' @ Number_toString sd (Fin 12) @ lit '')'')
         \<and> news_value_p0 sd (Some \<lparr>score = JNum (Fin 0.35), sample = JNum (Fin 12)\<rparr>)
             = Inr (lit ''+0.35 ('' @ Number_toString sd (Fin 12) @ lit '')'')"
proof -
  obtain val where val: "toFixed sd (Fin \<bar>v\<bar>) 2 = Inr val" "val \<noteq> []" "is_digit 10 (hd val)"
    using toFixed_abs_two by blast
  have a: "newsString sd (Some n) =
               Inr ((if 0 < v then lit ''+'' else []) @ val @ lit '' (''
                    @ (if Number_isFinite (Number (sample n)) then String_js sd (sample n)
                       else em_dash)
                    @ lit '')'')"
    using assms val(1)
    by (simp add: newsString_def field_def toNum_def js_gt_def fmt_def Let_def)
  have b: "news_value_p0 sd (Some n) =
               Inr ((if 0 < v then lit ''+'' else []) @ val @ lit '' (''
                    @ String_js sd (sample n) @ lit '')'')"
    using assms val(1)
    by (simp add: news_value_p0_def sign_def js_gt_def)
  have general: "\<exists>val. toFixed sd (Fin \<bar>v\<bar>) 2 = Inr val \<and> val \<noteq> [] \<and> is_digit 10 (hd val)
           \<and> newsString sd (Some n) =
               Inr ((if 0 < v then lit ''+'' else []) @ val @ lit '' (''
                    @ (if Number_isFinite (Number (sample n)) then String_js sd (sample n)
                       else em_dash)
                    @ lit '')'')
           \<and> news_value_p0 sd (Some n) =
               Inr ((if 0 < v then lit ''+'' else []) @ val @ lit '' (''
                    @ String_js sd (sample n) @ lit '')'')"
    using val a b by blast
  have examples:
    "newsString sd (Some \<lparr>score = JNum (Fin (- 0.35)), sample = JNum (Fin 12)\<rparr>)
       = Inr (lit ''0.35 ('' @ Number_toString sd (Fin 12) @ lit '')'')"
    "newsString sd (Some \<lparr>score = JNum (Fin 0.35), sample = JNum (Fin 12)\<rparr>)
       = Inr (lit ''+0.35 ('' @ Number_toString sd (Fin 12) @ lit '')'')"
    "newsString sd (Some \<lparr>score = JNum (Fin 0), sample = JNum (Fin 12)\<rparr>)
       = Inr (lit ''0.00 ('' @ Number_toString sd (Fin 12) @ lit '')'')"
    "news_value_p0 sd (Some \<lparr>score = JNum (Fin (- 0.35)), sample = JNum (Fin 12)\<rparr>)
       = Inr (lit ''0.35 ('' @ Number_toString sd (Fin 12) @ lit '')'')"
    "news_value_p0 sd (Some \<lparr>score = JNum (Fin 0.35), sample = JNum (Fin 12)\<rparr>)
       = Inr (lit ''+0.35 ('' @ Number_toString sd (Fin 12) @ lit '')'')"
    using toFixed_035 [of sd] toFixed_000 [of sd]
    by (simp_all add: newsString_def news_value_p0_def sign_def field_def toNum_def js_gt_def
          fmt_def lit_def del: Number_toString.simps)
  show ?thesis
    using general examples by blast
qed

theorem news_text_sign_and_magnitude_witness:
  "Number (score \<lparr>score = JStr (lit ''-0.35''), sample = JNull\<rparr>)
     = Fin (- (3152519739159347 / 2 ^ 53))
   \<and> (\<exists>val. toFixed (\<lambda>x. (12, 2)) (Fin \<bar>- (3152519739159347 / 2 ^ 53)\<bar>) 2 = Inr val
         \<and> newsString (\<lambda>x. (12, 2)) (Some \<lparr>score = JStr (lit ''-0.35''), sample = JNull\<rparr>)
             = Inr (val @ lit '' (null)''))"
proof -
  have h: "Number (score \<lparr>score = JStr (lit ''-0.35''), sample = JNull\<rparr>)
             = Fin (- (3152519739159347 / 2 ^ 53))"
    using Number_minus_035 by simp
  from news_text_sign_and_magnitude [OF h, of "\<lambda>x. (12, 2)"]
  show ?thesis
    using h by (auto simp: lit_def)
qed

end
